theory Spec2Isabelle
  imports Main
begin

section \<open>The snake game (snake\_game.py)\<close>

subsection \<open>Configuration constants (lines 12-17)\<close>

definition WINDOW_WIDTH :: int where
  "WINDOW_WIDTH = 800"

definition WINDOW_HEIGHT :: int where
  "WINDOW_HEIGHT = 600"

definition CELL_SIZE :: int where
  "CELL_SIZE = 20"

definition GRID_WIDTH :: int where
  "GRID_WIDTH = WINDOW_WIDTH div CELL_SIZE"

definition GRID_HEIGHT :: int where
  "GRID_HEIGHT = WINDOW_HEIGHT div CELL_SIZE"

definition FPS :: int where
  "FPS = 12"

subsection \<open>Enumerations and the power-up class (lines 33-55)\<close>

datatype Direction = UP | DOWN | LEFT | RIGHT

text \<open>The \<^verbatim>\<open>value\<close> of a member of the \<^verbatim>\<open>Direction\<close> enum: its unit delta.\<close>

fun Direction_value :: "Direction \<Rightarrow> int \<times> int" where
  "Direction_value UP = (0, -1)"
| "Direction_value DOWN = (0, 1)"
| "Direction_value LEFT = (-1, 0)"
| "Direction_value RIGHT = (1, 0)"

datatype GameState = PLAYING | PAUSED | GAME_OVER | NEW_HIGH_SCORE

datatype py_error = IndexError | ZeroDivisionError | OSError

text \<open>
  A \<^verbatim>\<open>PowerUp\<close> object. The fields \<^verbatim>\<open>x\<close>, \<^verbatim>\<open>y\<close>, \<^verbatim>\<open>type\<close> carry the prefix
  \<open>pu_\<close>; the \<^verbatim>\<open>color\<close> field is read by the renderer only and is left out.
\<close>

record PowerUp =
  pu_x :: int
  pu_y :: int
  pu_type :: string
  lifetime :: int

text \<open>\<^verbatim>\<open>PowerUp.__init__\<close> (lines 46-51): every power-up starts with 300 frames.\<close>

definition PowerUp_init :: "int \<Rightarrow> int \<Rightarrow> string \<Rightarrow> PowerUp" where
  "PowerUp_init x y t = \<lparr>pu_x = x, pu_y = y, pu_type = t, lifetime = 300\<rparr>"

text \<open>
  \<^verbatim>\<open>PowerUp.update\<close> (lines 53-55) decrements the lifetime in place and answers whether
  the power-up is still alive: the aged object and the answer.
\<close>

definition PowerUp_update :: "PowerUp \<Rightarrow> PowerUp \<times> bool" where
  "PowerUp_update p = (p\<lparr>lifetime := lifetime p - 1\<rparr>, lifetime p - 1 > 0)"

subsection \<open>The game object and its environment\<close>

text \<open>
  The fields of \<^verbatim>\<open>SnakeGame\<close> that the game logic reads or writes (the screen and the
  clock are rendering and timing only), and the pieces of the outside world the logic
  touches:
  \<^item> \<open>high_score_file\<close> is the content of \<^verbatim>\<open>high_score.txt\<close>: the integer its text
    denotes, or \<open>None\<close> when the file is missing or does not parse;
  \<^item> \<open>high_score_write\<close> is what the file system does when the file is opened for
    writing and written: both succeed, the \<^verbatim>\<open>open\<close> fails and leaves the file as it
    was, or the \<^verbatim>\<open>open\<close> succeeds and the write fails, leaving some content behind;
  \<^item> the process-wide random generator is a tape of raw draws \<open>rng_tape\<close> and the
    position \<open>rng_pos\<close> of the next unread draw; each call of the \<^verbatim>\<open>random\<close>
    module reads one raw draw and advances the position.
\<close>

datatype file_write = WRITE_OK | OPEN_FAILS | WRITE_FAILS "int option"

record game =
  snake :: "(int \<times> int) list"
  direction :: Direction
  food :: "int \<times> int"
  powerups :: "PowerUp list"
  score :: int
  high_score :: int
  state :: GameState
  invincible :: bool
  invincible_timer :: int
  speed :: int
  high_score_file :: "int option"
  high_score_write :: file_write
  rng_tape :: "nat \<Rightarrow> nat"
  rng_pos :: nat

text \<open>
  How a call of a method ends: it returns a value, it raises an exception, or it never
  returns. An exception and a hang leave the object as it is at that moment.
\<close>

datatype 'a result = Returns 'a | Raises py_error game | Hangs game

subsection \<open>The random module\<close>

text \<open>\<^verbatim>\<open>random.randint(lo, hi)\<close>: an integer in the closed range, decided by a raw draw.\<close>

definition randint :: "int \<Rightarrow> int \<Rightarrow> nat \<Rightarrow> int" where
  "randint lo hi raw = lo + int (raw mod nat (hi - lo + 1))"

text \<open>
  The test \<^verbatim>\<open>random.random() < 0.3\<close>: the raw draw decides the outcome of the
  comparison (three residues out of ten succeed).
\<close>

definition random_lt_03 :: "nat \<Rightarrow> bool" where
  "random_lt_03 raw = (raw mod 10 < 3)"

text \<open>\<^verbatim>\<open>random.choice(xs)\<close> on a non-empty list.\<close>

definition random_choice :: "'a list \<Rightarrow> nat \<Rightarrow> 'a" where
  "random_choice xs raw = xs ! (raw mod length xs)"

subsection \<open>Food placement (lines 76-80)\<close>

text \<open>One candidate of the loop: two \<^verbatim>\<open>randint\<close> calls, \<^verbatim>\<open>x\<close> first.\<close>

definition random_cell :: "(nat \<Rightarrow> nat) \<Rightarrow> nat \<Rightarrow> int \<times> int" where
  "random_cell tape pos =
     (randint 0 (GRID_WIDTH - 1) (tape pos), randint 0 (GRID_HEIGHT - 1) (tape (pos + 1)))"

text \<open>
  \<^verbatim>\<open>generate_food\<close> is a \<^verbatim>\<open>while True\<close> loop that only leaves through its
  \<^verbatim>\<open>return\<close>. It is a partial function: \<open>None\<close> is the run that never returns, and
  \<open>Some (food, pos')\<close> is the returned position with the position of the tape after the
  draws the loop consumed.
\<close>

partial_function (option) generate_food ::
  "(int \<times> int) list \<Rightarrow> (nat \<Rightarrow> nat) \<Rightarrow> nat \<Rightarrow> ((int \<times> int) \<times> nat) option" where
  "generate_food sn tape pos =
     (if random_cell tape pos \<notin> set sn then Some (random_cell tape pos, pos + 2)
      else generate_food sn tape (pos + 2))"

subsection \<open>Power-up spawning (lines 82-89)\<close>

definition generate_powerup :: "game \<Rightarrow> game" where
  "generate_powerup g =
     (let r = rng_tape g (rng_pos g);
          g1 = g\<lparr>rng_pos := rng_pos g + 1\<rparr>
      in if random_lt_03 r \<and> length (powerups g1) < 2 then
           (let x = randint 0 (GRID_WIDTH - 1) (rng_tape g1 (rng_pos g1));
                y = randint 0 (GRID_HEIGHT - 1) (rng_tape g1 (rng_pos g1 + 1));
                g2 = g1\<lparr>rng_pos := rng_pos g1 + 2\<rparr>
            in if (x, y) \<notin> set (snake g2) \<and> (x, y) \<noteq> food g2 then
                 (let types = [''speed'', ''score'', ''invincible''];
                      powerup_type = random_choice types (rng_tape g2 (rng_pos g2));
                      g3 = g2\<lparr>rng_pos := rng_pos g2 + 1\<rparr>
                  in g3\<lparr>powerups := powerups g3 @ [PowerUp_init x y powerup_type]\<rparr>)
               else g2)
         else g1)"

subsection \<open>High-score persistence (lines 91-104)\<close>

text \<open>
  \<^verbatim>\<open>load_high_score\<close> answers 0 on any failure to read or parse the file (the bare
  \<^verbatim>\<open>except\<close> of lines 95-96).
  \<^verbatim>\<open>save_high_score\<close> has no handler: it sets the high score first and then opens and
  writes the file, so a failure there raises \<open>OSError\<close> with the high score already
  set. When it returns, the result is the flag and the object after the call.
\<close>

definition load_high_score :: "game \<Rightarrow> int" where
  "load_high_score g = (case high_score_file g of Some n \<Rightarrow> n | None \<Rightarrow> 0)"

definition save_high_score :: "game \<Rightarrow> (bool \<times> game) result" where
  "save_high_score g =
     (if score g > high_score g then
        (let g1 = g\<lparr>high_score := score g\<rparr>
         in case high_score_write g1 of
              OPEN_FAILS \<Rightarrow> Raises OSError g1
            | WRITE_FAILS left \<Rightarrow> Raises OSError (g1\<lparr>high_score_file := left\<rparr>)
            | WRITE_OK \<Rightarrow> Returns (True, g1\<lparr>high_score_file := Some (high_score g1)\<rparr>))
      else Returns (False, g))"

subsection \<open>Game over (lines 187-189)\<close>

text \<open>An exception of \<^verbatim>\<open>save_high_score\<close> passes through, before the state is set.\<close>

definition game_over :: "game \<Rightarrow> game result" where
  "game_over g =
     (case save_high_score g of
        Raises e g1 \<Rightarrow> Raises e g1
      | Hangs g1 \<Rightarrow> Hangs g1
      | Returns (new_high, g1) \<Rightarrow>
          Returns (g1\<lparr>state := (if new_high then NEW_HIGH_SCORE else GAME_OVER)\<rparr>))"

subsection \<open>Reset (lines 64-74)\<close>

text \<open>
  \<^verbatim>\<open>reset_game\<close> assigns every game field; only the file and the random generator
  survive it. It calls \<^verbatim>\<open>generate_food\<close> and so returns only if that loop does.
\<close>

definition reset_game :: "game \<Rightarrow> game option" where
  "reset_game g =
     (let g1 = g\<lparr>snake := [(GRID_WIDTH div 2, GRID_HEIGHT div 2)], direction := RIGHT\<rparr>
      in case generate_food (snake g1) (rng_tape g1) (rng_pos g1) of
           None \<Rightarrow> None
         | Some (f, pos') \<Rightarrow>
             (let g2 = g1\<lparr>food := f, rng_pos := pos', powerups := [], score := 0\<rparr>;
                  g3 = g2\<lparr>high_score := load_high_score g2\<rparr>
              in Some (g3\<lparr>state := PLAYING, invincible := False, invincible_timer := 0,
                          speed := FPS\<rparr>)))"

subsection \<open>Input handling (lines 106-131)\<close>

datatype key = K_UP | K_DOWN | K_LEFT | K_RIGHT | K_p | K_r | K_RETURN | K_q | K_ESCAPE
  | K_OTHER

datatype event = QUIT | KEYDOWN key | OTHER_EVENT

text \<open>
  The body of the \<^verbatim>\<open>for\<close> loop for one event. The flag is \<open>False\<close> where the body
  executes \<^verbatim>\<open>return False\<close>, and \<open>True\<close> where the loop goes on.
\<close>

definition handle_event :: "event \<Rightarrow> game \<Rightarrow> (bool \<times> game) option" where
  "handle_event e g =
     (case e of
        QUIT \<Rightarrow> Some (False, g)
      | OTHER_EVENT \<Rightarrow> Some (True, g)
      | KEYDOWN k \<Rightarrow>
          if k = K_ESCAPE then Some (False, g)
          else if state g = PLAYING then
            (if k = K_UP \<and> direction g \<noteq> DOWN then Some (True, g\<lparr>direction := UP\<rparr>)
             else if k = K_DOWN \<and> direction g \<noteq> UP then Some (True, g\<lparr>direction := DOWN\<rparr>)
             else if k = K_LEFT \<and> direction g \<noteq> RIGHT then Some (True, g\<lparr>direction := LEFT\<rparr>)
             else if k = K_RIGHT \<and> direction g \<noteq> LEFT then Some (True, g\<lparr>direction := RIGHT\<rparr>)
             else if k = K_p then Some (True, g\<lparr>state := PAUSED\<rparr>)
             else Some (True, g))
          else if state g = GAME_OVER \<or> state g = NEW_HIGH_SCORE then
            (if k = K_r \<or> k = K_RETURN then map_option (Pair True) (reset_game g)
             else if k = K_q \<or> k = K_ESCAPE then Some (False, g)
             else Some (True, g))
          else if state g = PAUSED \<and> k = K_p then Some (True, g\<lparr>state := PLAYING\<rparr>)
          else Some (True, g))"

text \<open>\<^verbatim>\<open>handle_input\<close> on the events that \<^verbatim>\<open>pygame.event.get()\<close> delivered.\<close>

fun handle_input :: "event list \<Rightarrow> game \<Rightarrow> (bool \<times> game) option" where
  "handle_input [] g = Some (True, g)"
| "handle_input (e # es) g =
     (case handle_event e g of
        None \<Rightarrow> None
      | Some (running, g1) \<Rightarrow> if running then handle_input es g1 else Some (False, g1))"

subsection \<open>The per-tick update (lines 133-185)\<close>

text \<open>The candidate head of lines 138-140, for a snake whose head is \<open>h\<close>.\<close>

definition step_head :: "int \<times> int \<Rightarrow> Direction \<Rightarrow> int \<times> int" where
  "step_head h d = (fst h + fst (Direction_value d), snd h + snd (Direction_value d))"

text \<open>The wall test of lines 143-144.\<close>

definition out_of_bounds :: "int \<times> int \<Rightarrow> bool" where
  "out_of_bounds p =
     (fst p < 0 \<or> fst p \<ge> GRID_WIDTH \<or> snd p < 0 \<or> snd p \<ge> GRID_HEIGHT)"

text \<open>The wrap of line 149. Python's \<^verbatim>\<open>%\<close> with a positive modulus is \<open>mod\<close>.\<close>

definition wrap :: "int \<times> int \<Rightarrow> int \<times> int" where
  "wrap p = (fst p mod GRID_WIDTH, snd p mod GRID_HEIGHT)"

text \<open>
  The loop over a copy of the power-up list (lines 167-176). \<^verbatim>\<open>list.remove\<close> takes
  out the first element equal to its argument; the iterated power-up is that element,
  since every earlier one at the same cell has been removed before.
\<close>

fun consume_powerups :: "int \<times> int \<Rightarrow> PowerUp list \<Rightarrow> game \<Rightarrow> game" where
  "consume_powerups new_head [] g = g"
| "consume_powerups new_head (p # ps) g =
     consume_powerups new_head ps
       (if new_head = (pu_x p, pu_y p) then
          (let g1 = (if pu_type p = ''speed'' then g\<lparr>speed := speed g + 2\<rparr>
                     else if pu_type p = ''score'' then g\<lparr>score := score g + 50\<rparr>
                     else if pu_type p = ''invincible'' then
                       g\<lparr>invincible := True, invincible_timer := 300\<rparr>
                     else g)
           in g1\<lparr>powerups := remove1 p (powerups g1)\<rparr>)
        else g)"

text \<open>The invincibility countdown (lines 179-182).\<close>

definition update_invincible :: "game \<Rightarrow> game" where
  "update_invincible g =
     (if invincible g then
        (let g1 = g\<lparr>invincible_timer := invincible_timer g - 1\<rparr>
         in if invincible_timer g1 \<le> 0 then g1\<lparr>invincible := False\<rparr> else g1)
      else g)"

text \<open>The ageing of the power-ups (line 185).\<close>

definition update_powerups :: "game \<Rightarrow> game" where
  "update_powerups g =
     g\<lparr>powerups := map fst (filter snd (map PowerUp_update (powerups g)))\<rparr>"

text \<open>Lines 166-185: what follows the move, for the head \<open>new_head\<close> just placed.\<close>

definition after_move :: "int \<times> int \<Rightarrow> game \<Rightarrow> game" where
  "after_move new_head g =
     update_powerups (update_invincible (consume_powerups new_head (powerups g) g))"

text \<open>
  Lines 156-185: the move itself, the food test and what follows. When the food loop
  never returns the call hangs inside it, with the head inserted and the score raised.
\<close>

definition move_snake :: "int \<times> int \<Rightarrow> game \<Rightarrow> game result" where
  "move_snake new_head g =
     (let g1 = g\<lparr>snake := new_head # snake g\<rparr>
      in if new_head = food g1 then
           (let g2 = g1\<lparr>score := score g1 + 10\<rparr>
            in case generate_food (snake g2) (rng_tape g2) (rng_pos g2) of
                 None \<Rightarrow> Hangs g2
               | Some (f, pos') \<Rightarrow>
                   Returns (after_move new_head
                     (generate_powerup (g2\<lparr>food := f, rng_pos := pos'\<rparr>))))
         else Returns (after_move new_head (g1\<lparr>snake := butlast (snake g1)\<rparr>)))"

text \<open>
  \<^verbatim>\<open>update\<close>. It returns leaving the object as \<open>g'\<close> (\<open>Returns g'\<close>), it raises
  (\<^verbatim>\<open>self.snake[0]\<close> on an empty list, or the exception of \<^verbatim>\<open>game_over\<close>), or it
  hangs in the food loop.
\<close>

definition update :: "game \<Rightarrow> game result" where
  "update g =
     (if state g \<noteq> PLAYING then Returns g
      else case snake g of
        [] \<Rightarrow> Raises IndexError g
      | h # _ \<Rightarrow>
          (let new_head = step_head h (direction g)
           in if out_of_bounds new_head \<and> \<not> invincible g then game_over g
              else
                (let new_head = (if out_of_bounds new_head then wrap new_head else new_head)
                 in if new_head \<in> set (snake g) \<and> \<not> invincible g
                    then game_over g
                    else move_snake new_head g)))"

subsection \<open>Example states\<close>

text \<open>
  A game in the playing state with the given snake, direction and food: no power-ups,
  score and high score 0, not invincible, no high-score file, a file system on which
  writing succeeds, and a random generator whose every raw draw is 0.
\<close>

definition mk_game :: "(int \<times> int) list \<Rightarrow> Direction \<Rightarrow> int \<times> int \<Rightarrow> game" where
  "mk_game sn d f =
     \<lparr>snake = sn, direction = d, food = f, powerups = [], score = 0, high_score = 0,
      state = PLAYING, invincible = False, invincible_timer = 0, speed = FPS,
      high_score_file = None, high_score_write = WRITE_OK, rng_tape = (\<lambda>n. 0),
      rng_pos = 0\<rparr>"

text \<open>The tape that starts with the given draws and goes on with 0.\<close>

definition tape_of :: "nat list \<Rightarrow> nat \<Rightarrow> nat" where
  "tape_of xs n = (if n < length xs then xs ! n else 0)"

text \<open>
  A game in the playing state, heading right, on the tape \<open>tape_of draws\<close> read up to
  \<open>pos\<close>, with the given snake, food, power-ups and score.
\<close>

definition run_game ::
  "nat list \<Rightarrow> nat \<Rightarrow> (int \<times> int) list \<Rightarrow> int \<times> int \<Rightarrow> PowerUp list \<Rightarrow> int \<Rightarrow> game" where
  "run_game draws pos sn f ps sc =
     (mk_game sn RIGHT f)\<lparr>powerups := ps, score := sc, rng_tape := tape_of draws,
        rng_pos := pos\<rparr>"

text \<open>
  Draws for a session in which an invincibility power-up appears next to the second
  food, and draws for a session in which the third food is placed on a score power-up.
\<close>

definition dup_draws :: "nat list" where
  "dup_draws = [21, 15, 22, 15, 0, 23, 15, 2, 0, 0, 5]"

definition bonus_draws :: "nat list" where
  "bonus_draws = [21, 15, 22, 15, 0, 23, 15, 1, 23, 15, 5, 0, 0, 5]"

text \<open>
  A snake that fills the grid: column after column, alternately down and up, so that
  consecutive segments are neighbours.
\<close>

definition snake_column :: "int \<Rightarrow> (int \<times> int) list" where
  "snake_column x =
     map (\<lambda>y. (x, if even x then y else GRID_HEIGHT - 1 - y)) [0..GRID_HEIGHT - 1]"

definition full_snake :: "(int \<times> int) list" where
  "full_snake = concat (map snake_column [0..GRID_WIDTH - 1])"

text \<open>
  A snake that fills the grid but for the cell (0, 0): its head is on (0, 1), next to
  the free cell, and the other cells follow in the order of \<open>full_snake\<close>.
\<close>

definition almost_full_snake :: "(int \<times> int) list" where
  "almost_full_snake = (0, 1) # filter (\<lambda>c. c \<noteq> (0, 0) \<and> c \<noteq> (0, 1)) full_snake"

subsection \<open>Notions used to state the properties\<close>

text \<open>
  The head that lines 138-149 place when the tick moves: the candidate, wrapped when it
  is outside the grid.
\<close>

definition landing_head :: "int \<times> int \<Rightarrow> Direction \<Rightarrow> int \<times> int" where
  "landing_head h d =
     (if out_of_bounds (step_head h d) then wrap (step_head h d) else step_head h d)"

text \<open>The direction an arrow key asks for (the assignments of lines 114-121).\<close>

definition key_direction :: "key \<Rightarrow> Direction option" where
  "key_direction k =
     (if k = K_UP then Some UP else if k = K_DOWN then Some DOWN
      else if k = K_LEFT then Some LEFT else if k = K_RIGHT then Some RIGHT else None)"

text \<open>\<open>d'\<close> is the exact reverse of \<open>d\<close>: its unit delta is the negated one.\<close>

definition is_reverse :: "Direction \<Rightarrow> Direction \<Rightarrow> bool" where
  "is_reverse d d' =
     (Direction_value d' = (- fst (Direction_value d), - snd (Direction_value d)))"

text \<open>
  The states a session passes through (\<^verbatim>\<open>run\<close>, lines 247-253): \<^verbatim>\<open>__init__\<close>
  resets the fresh object, and every iteration of the loop calls \<^verbatim>\<open>handle_input\<close>
  on the pending events and then \<^verbatim>\<open>update\<close>; the state after each call that returns
  is reachable.
\<close>

inductive reachable :: "game \<Rightarrow> bool" where
  start: "reset_game g0 = Some g \<Longrightarrow> reachable g"
| input: "reachable g \<Longrightarrow> handle_input evs g = Some (running, g') \<Longrightarrow> reachable g'"
| tick: "reachable g \<Longrightarrow> update g = Returns g' \<Longrightarrow> reachable g'"

section \<open>The cellular automaton (sandbox\_demo.py)\<close>

subsection \<open>List indexing\<close>

text \<open>Python's \<^verbatim>\<open>xs[i]\<close>: a negative index counts from the end.\<close>

definition py_nth :: "'a list \<Rightarrow> int \<Rightarrow> py_error + 'a" where
  "py_nth xs i =
     (if - int (length xs) \<le> i \<and> i < int (length xs)
      then Inr (xs ! nat (if i < 0 then i + int (length xs) else i))
      else Inl IndexError)"

text \<open>Python's \<^verbatim>\<open>grid[y][x] = v\<close>.\<close>

definition py_set_cell :: "int list list \<Rightarrow> int \<Rightarrow> int \<Rightarrow> int \<Rightarrow> py_error + int list list" where
  "py_set_cell grid y x v =
     (case py_nth grid y of
        Inl e \<Rightarrow> Inl e
      | Inr row \<Rightarrow>
          if - int (length row) \<le> x \<and> x < int (length row)
          then Inr (grid[nat (if y < 0 then y + int (length grid) else y) :=
                           row[nat (if x < 0 then x + int (length row) else x) := v]])
          else Inl IndexError)"

subsection \<open>Counting neighbours (lines 25-35)\<close>

text \<open>
  The two nested loops of \<^verbatim>\<open>count_neighbors\<close> (lines 28-34), over the offsets in
  the order the loops visit them, with the running \<^verbatim>\<open>count\<close>.
\<close>

fun neighbor_loop ::
  "int list list \<Rightarrow> int \<Rightarrow> int \<Rightarrow> int \<Rightarrow> int \<Rightarrow> (int \<times> int) list \<Rightarrow> int \<Rightarrow> py_error + int" where
  "neighbor_loop grid width height x y [] count = Inr count"
| "neighbor_loop grid width height x y ((dx, dy) # rest) count =
     (if dx = 0 \<and> dy = 0 then neighbor_loop grid width height x y rest count
      else if width = 0 then Inl ZeroDivisionError
      else if height = 0 then Inl ZeroDivisionError
      else
        (let nx = (x + dx) mod width;
             ny = (y + dy) mod height
         in case py_nth grid ny of
              Inl e \<Rightarrow> Inl e
            | Inr row \<Rightarrow>
                (case py_nth row nx of
                   Inl e \<Rightarrow> Inl e
                 | Inr v \<Rightarrow> neighbor_loop grid width height x y rest (count + v))))"

text \<open>
  \<^verbatim>\<open>count_neighbors\<close>: the width is the length of the first row, which an empty grid
  does not have, and \<^verbatim>\<open>dx\<close> is the outer loop.
\<close>

definition count_neighbors :: "int list list \<Rightarrow> int \<Rightarrow> int \<Rightarrow> py_error + int" where
  "count_neighbors grid x y =
     (case py_nth grid 0 of
        Inl e \<Rightarrow> Inl e
      | Inr row0 \<Rightarrow>
          neighbor_loop grid (int (length row0)) (int (length grid)) x y
            (List.product [-1, 0, 1] [-1, 0, 1]) 0)"

subsection \<open>The next generation (lines 37-48)\<close>

text \<open>
  The two nested loops of \<^verbatim>\<open>next_generation\<close> (lines 40-47), over the cells
  \<open>(y, x)\<close> in the order the loops visit them, with the grid under construction.
\<close>

fun cells_loop ::
  "int list list \<Rightarrow> (int \<times> int) list \<Rightarrow> int list list \<Rightarrow> py_error + int list list" where
  "cells_loop grid [] new_grid = Inr new_grid"
| "cells_loop grid ((y, x) # rest) new_grid =
     (case count_neighbors grid x y of
        Inl e \<Rightarrow> Inl e
      | Inr neighbors \<Rightarrow>
          (case py_nth grid y of
             Inl e \<Rightarrow> Inl e
           | Inr row \<Rightarrow>
               (case py_nth row x of
                  Inl e \<Rightarrow> Inl e
                | Inr cell \<Rightarrow>
                    if cell = 1 \<and> (neighbors = 2 \<or> neighbors = 3) then
                      (case py_set_cell new_grid y x 1 of
                         Inl e \<Rightarrow> Inl e
                       | Inr g \<Rightarrow> cells_loop grid rest g)
                    else if cell = 0 \<and> neighbors = 3 then
                      (case py_set_cell new_grid y x 1 of
                         Inl e \<Rightarrow> Inl e
                       | Inr g \<Rightarrow> cells_loop grid rest g)
                    else cells_loop grid rest new_grid)))"

text \<open>
  \<^verbatim>\<open>next_generation\<close>: a fresh grid of zeros of the same height and width, filled by
  the loops, which read the grid passed in and write the fresh one only.
\<close>

definition next_generation :: "int list list \<Rightarrow> py_error + int list list" where
  "next_generation grid =
     (case py_nth grid 0 of
        Inl e \<Rightarrow> Inl e
      | Inr row0 \<Rightarrow>
          (let width = int (length row0);
               height = int (length grid);
               new_grid = replicate (nat height) (replicate (nat width) 0)
           in cells_loop grid (List.product [0..height - 1] [0..width - 1]) new_grid))"


subsection \<open>Notions used to state the rule\<close>

text \<open>A grid as \<^verbatim>\<open>create_grid\<close> builds it: rows of one length, cells 0 or 1.\<close>

definition is_grid :: "int list list \<Rightarrow> bool" where
  "is_grid grid =
     (grid \<noteq> [] \<and> (\<forall>row\<in>set grid. length row = length (hd grid)) \<and>
      (\<forall>row\<in>set grid. \<forall>c\<in>set row. c = 0 \<or> c = 1))"

text \<open>The eight offsets of a neighbour.\<close>

definition neighbor_offsets :: "(int \<times> int) list" where
  "neighbor_offsets = [(-1, -1), (-1, 0), (-1, 1), (0, -1), (0, 1), (1, -1), (1, 0), (1, 1)]"

text \<open>The cell at a position wrapped modulo the height and the width.\<close>

definition torus_cell :: "int list list \<Rightarrow> int \<Rightarrow> int \<Rightarrow> int" where
  "torus_cell grid x y =
     grid ! nat (y mod int (length grid)) ! nat (x mod int (length (hd grid)))"

text \<open>The number of offsets whose wrapped cell is alive (a cell is alive when it is 1).\<close>

definition live_neighbors :: "int list list \<Rightarrow> int \<Rightarrow> int \<Rightarrow> int" where
  "live_neighbors grid x y =
     int (length (filter (\<lambda>(dx, dy). torus_cell grid (x + dx) (y + dy) = 1) neighbor_offsets))"

text \<open>
  The rule of the game at the cell \<open>(x, y)\<close>: alive with two or three live
  neighbours, or dead with exactly three.
\<close>

definition life_rule :: "int list list \<Rightarrow> int \<Rightarrow> int \<Rightarrow> bool" where
  "life_rule grid x y =
     ((grid ! nat y ! nat x = 1 \<and> (live_neighbors grid x y = 2 \<or> live_neighbors grid x y = 3)) \<or>
      (grid ! nat y ! nat x = 0 \<and> live_neighbors grid x y = 3))"

text \<open>
  A grid of four columns and four rows: three live cells in a corner (they wrap
  around the edges) and a lone live cell.
\<close>

definition sample_grid :: "int list list" where
  "sample_grid = [[1, 1, 0, 0], [1, 0, 0, 0], [0, 0, 1, 0], [0, 0, 0, 0]]"

section \<open>Properties of the snake game\<close>

subsection \<open>Frame lemmas\<close>

lemma grid_size: "GRID_WIDTH = 40" "GRID_HEIGHT = 30"
  by (simp_all add: GRID_WIDTH_def GRID_HEIGHT_def WINDOW_WIDTH_def WINDOW_HEIGHT_def
      CELL_SIZE_def)

lemma consume_powerups_frame:
  "snake (consume_powerups nh ps g) = snake g \<and> food (consume_powerups nh ps g) = food g \<and>
   state (consume_powerups nh ps g) = state g \<and>
   direction (consume_powerups nh ps g) = direction g \<and>
   rng_pos (consume_powerups nh ps g) = rng_pos g \<and>
   rng_tape (consume_powerups nh ps g) = rng_tape g \<and>
   high_score (consume_powerups nh ps g) = high_score g \<and>
   high_score_file (consume_powerups nh ps g) = high_score_file g"
  by (induction ps arbitrary: g) (simp_all add: Let_def)

lemma after_move_frame:
  "snake (after_move nh g) = snake g \<and> food (after_move nh g) = food g \<and>
   state (after_move nh g) = state g \<and> direction (after_move nh g) = direction g"
  by (simp add: after_move_def update_powerups_def update_invincible_def Let_def
      consume_powerups_frame)

lemma generate_powerup_frame:
  "snake (generate_powerup g) = snake g \<and> food (generate_powerup g) = food g \<and>
   state (generate_powerup g) = state g \<and> score (generate_powerup g) = score g \<and>
   direction (generate_powerup g) = direction g"
  by (simp add: generate_powerup_def Let_def)

subsection \<open>The three ways out of game over\<close>

lemma game_over_no_record:
  "score g \<le> high_score g \<Longrightarrow> game_over g = Returns (g\<lparr>state := GAME_OVER\<rparr>)"
  by (simp add: game_over_def save_high_score_def)

lemma game_over_new_record:
  "high_score g < score g \<Longrightarrow> high_score_write g = WRITE_OK \<Longrightarrow>
   game_over g =
     Returns (g\<lparr>high_score := score g, high_score_file := Some (score g),
                state := NEW_HIGH_SCORE\<rparr>)"
  by (simp add: game_over_def save_high_score_def Let_def)

lemma game_over_open_fails:
  "high_score g < score g \<Longrightarrow> high_score_write g = OPEN_FAILS \<Longrightarrow>
   game_over g = Raises OSError (g\<lparr>high_score := score g\<rparr>)"
  by (simp add: game_over_def save_high_score_def Let_def)

lemma game_over_write_fails:
  "high_score g < score g \<Longrightarrow> high_score_write g = WRITE_FAILS left \<Longrightarrow>
   game_over g = Raises OSError (g\<lparr>high_score := score g, high_score_file := left\<rparr>)"
  by (simp add: game_over_def save_high_score_def Let_def)

text \<open>\<^verbatim>\<open>game_over\<close> returns exactly when no write is attempted or the write succeeds.\<close>

lemma game_over_returns_iff:
  "(\<exists>g'. game_over g = Returns g') = (score g \<le> high_score g \<or> high_score_write g = WRITE_OK)"
proof (cases "score g \<le> high_score g")
  case True
  then show ?thesis by (simp add: game_over_no_record)
next
  case False
  then have r: "high_score g < score g" by simp
  show ?thesis
  proof (cases "high_score_write g")
    case WRITE_OK
    with r show ?thesis by (simp add: game_over_new_record)
  next
    case OPEN_FAILS
    with r show ?thesis by (simp add: game_over_open_fails)
  next
    case (WRITE_FAILS left)
    with r show ?thesis by (simp add: game_over_write_fails)
  qed
qed

text \<open>It ends by returning or by raising \<open>OSError\<close>, and never touches the game itself.\<close>

lemma game_over_outcome:
  "\<exists>g'. (game_over g = Returns g' \<or> game_over g = Raises OSError g') \<and>
     snake g' = snake g \<and> food g' = food g \<and> score g' = score g \<and>
     powerups g' = powerups g \<and> direction g' = direction g \<and>
     invincible g' = invincible g \<and> invincible_timer g' = invincible_timer g \<and>
     speed g' = speed g \<and> rng_pos g' = rng_pos g \<and> rng_tape g' = rng_tape g"
proof (cases "score g \<le> high_score g")
  case True
  then show ?thesis by (simp add: game_over_no_record)
next
  case False
  then have r: "high_score g < score g" by simp
  show ?thesis
  proof (cases "high_score_write g")
    case WRITE_OK
    with r show ?thesis by (simp add: game_over_new_record)
  next
    case OPEN_FAILS
    with r show ?thesis by (simp add: game_over_open_fails)
  next
    case (WRITE_FAILS left)
    with r show ?thesis by (simp add: game_over_write_fails)
  qed
qed

lemma game_over_Returns:
  assumes "game_over g = Returns g'"
  shows "g' = (if high_score g < score g
               then g\<lparr>high_score := score g, high_score_file := Some (score g),
                       state := NEW_HIGH_SCORE\<rparr>
               else g\<lparr>state := GAME_OVER\<rparr>)"
proof (cases "score g \<le> high_score g")
  case True
  with assms show ?thesis by (simp add: game_over_no_record)
next
  case False
  then have r: "high_score g < score g" by simp
  from assms game_over_returns_iff[of g] r have "high_score_write g = WRITE_OK" by auto
  with assms r show ?thesis by (simp add: game_over_new_record)
qed

lemma game_over_Returns_state:
  "game_over g = Returns g' \<Longrightarrow> state g' = GAME_OVER \<or> state g' = NEW_HIGH_SCORE"
  by (drule game_over_Returns) (simp split: if_splits)

subsection \<open>The two ways through a playing tick\<close>

text \<open>Both collision exits of \<^verbatim>\<open>update\<close> (lines 145-147 and 152-154).\<close>

lemma update_collision:
  assumes "state g = PLAYING" "snake g = h # t" "\<not> invincible g"
    "out_of_bounds (step_head h (direction g)) \<or> step_head h (direction g) \<in> set (snake g)"
  shows "update g = game_over g"
  using assms by (auto simp add: update_def Let_def)

text \<open>Without a collision the tick goes on with the move.\<close>

lemma update_moves:
  assumes "state g = PLAYING" "snake g = h # t"
    "invincible g \<or> (\<not> out_of_bounds (step_head h (direction g)) \<and>
        step_head h (direction g) \<notin> set (snake g))"
  shows "update g = move_snake (landing_head h (direction g)) g"
  using assms by (auto simp add: update_def Let_def landing_head_def)


lemma update_playing_moves:
  assumes "state g = PLAYING" "snake g = h # t" "update g = Returns g'" "state g' = PLAYING"
  shows "move_snake (landing_head h (direction g)) g = Returns g'"
proof (cases "invincible g \<or> (\<not> out_of_bounds (step_head h (direction g)) \<and>
        step_head h (direction g) \<notin> set (snake g))")
  case True
  from update_moves[OF assms(1,2) True] assms(3) show ?thesis by simp
next
  case False
  then have "\<not> invincible g"
    "out_of_bounds (step_head h (direction g)) \<or> step_head h (direction g) \<in> set (snake g)"
    by blast+
  from update_collision[OF assms(1,2) this] assms(3) have "game_over g = Returns g'" by simp
  from game_over_Returns_state[OF this] assms(4) show ?thesis by simp
qed

text \<open>The three ends of the move: no food, food found, food loop without end.\<close>

lemma move_snake_plain:
  "nh \<noteq> food g \<Longrightarrow>
   move_snake nh g = Returns (after_move nh (g\<lparr>snake := butlast (nh # snake g)\<rparr>))"
  by (simp add: move_snake_def Let_def)

lemma move_snake_eats:
  "generate_food (food g # snake g) (rng_tape g) (rng_pos g) = Some (f, pos') \<Longrightarrow>
   move_snake (food g) g =
     Returns (after_move (food g)
       (generate_powerup (g\<lparr>snake := food g # snake g, score := score g + 10, food := f,
          rng_pos := pos'\<rparr>)))"
  by (simp add: move_snake_def Let_def)

lemma move_snake_hangs:
  "generate_food (food g # snake g) (rng_tape g) (rng_pos g) = None \<Longrightarrow>
   move_snake (food g) g = Hangs (g\<lparr>snake := food g # snake g, score := score g + 10\<rparr>)"
  by (simp add: move_snake_def Let_def)

lemma move_snake_not_raise: "move_snake nh g \<noteq> Raises e g'"
  by (auto simp add: move_snake_def Let_def split: option.splits)

lemma move_snake_returns_iff:
  "(\<exists>g'. move_snake nh g = Returns g') =
     (nh \<noteq> food g \<or> generate_food (nh # snake g) (rng_tape g) (rng_pos g) \<noteq> None)"
  by (auto simp add: move_snake_def Let_def split: option.splits)


text \<open>However the move ends, the state is as before and the head is the one placed.\<close>

lemma move_snake_outcome:
  assumes "snake g \<noteq> []"
  shows "\<exists>g'. (move_snake nh g = Returns g' \<or> move_snake nh g = Hangs g') \<and>
     state g' = state g \<and> hd (snake g') = nh"
  using assms
  by (auto simp add: move_snake_def Let_def after_move_frame generate_powerup_frame
      split: option.splits)

lemma move_snake_snake:
  "move_snake nh g = Returns g' \<Longrightarrow>
   snake g' = (if nh = food g then nh # snake g else butlast (nh # snake g))"
  by (auto simp add: move_snake_def Let_def after_move_frame generate_powerup_frame
      split: option.splits if_splits)

subsection \<open>The food loop\<close>

lemma generate_food_free:
  "random_cell tape pos \<notin> set sn \<Longrightarrow>
   generate_food sn tape pos = Some (random_cell tape pos, pos + 2)"
  by (subst generate_food.simps) simp

lemma generate_food_occupied:
  "random_cell tape pos \<in> set sn \<Longrightarrow>
   generate_food sn tape pos = generate_food sn tape (pos + 2)"
  by (subst generate_food.simps) simp

text \<open>A run that returns has rejected \<open>k\<close> candidates and accepted the next one.\<close>

lemma generate_food_Some:
  assumes ret: "generate_food sn tape pos = Some r"
  shows "\<exists>k. r = (random_cell tape (pos + 2 * k), pos + 2 * k + 2) \<and>
       random_cell tape (pos + 2 * k) \<notin> set sn \<and>
       (\<forall>j<k. random_cell tape (pos + 2 * j) \<in> set sn)"
proof (rule generate_food.raw_induct[OF _ ret], goal_cases)
  case (1 f sn tape pos r)
  show ?case
  proof (cases "random_cell tape pos \<in> set sn")
    case False
    with 1(2) have "r = (random_cell tape (pos + 2 * 0), pos + 2 * 0 + 2)" by auto
    with False show ?thesis by (intro exI[of _ 0]) simp
  next
    case True
    with 1(2) have "f sn tape (pos + 2) = Some r" by simp
    from 1(1)[OF this] obtain k where k:
      "r = (random_cell tape (pos + 2 + 2 * k), pos + 2 + 2 * k + 2)"
      "random_cell tape (pos + 2 + 2 * k) \<notin> set sn"
      "\<forall>j<k. random_cell tape (pos + 2 + 2 * j) \<in> set sn"
      by blast
    have "random_cell tape (pos + 2 * j) \<in> set sn" if "j < Suc k" for j
    proof (cases j)
      case 0
      with True show ?thesis by simp
    next
      case (Suc i)
      with that k(3) have "random_cell tape (pos + 2 + 2 * i) \<in> set sn" by simp
      with Suc show ?thesis by (simp add: add.assoc)
    qed
    with k(1,2) show ?thesis
      by (intro exI[of _ "Suc k"]) (simp add: add.assoc)
  qed
qed

text \<open>A free candidate anywhere ahead on the tape makes the loop return.\<close>

lemma generate_food_finds:
  "random_cell tape (pos + 2 * k) \<notin> set sn \<Longrightarrow> \<exists>r. generate_food sn tape pos = Some r"
proof (induction k arbitrary: pos)
  case 0
  then show ?case by (simp add: generate_food_free)
next
  case (Suc k)
  show ?case
  proof (cases "random_cell tape pos \<in> set sn")
    case False
    then show ?thesis by (simp add: generate_food_free)
  next
    case True
    from Suc.prems have "random_cell tape (pos + 2 + 2 * k) \<notin> set sn"
      by (simp add: add.assoc)
    from Suc.IH[OF this] show ?thesis
      by (simp add: generate_food_occupied[OF True])
  qed
qed

lemma random_cell_in_grid: "\<not> out_of_bounds (random_cell tape pos)"
proof -
  have "tape pos mod 40 < 40" "tape (pos + 1) mod 30 < 30" by simp_all
  then show ?thesis
    by (simp add: out_of_bounds_def random_cell_def randint_def grid_size not_le)
qed

text \<open>Every cell of the grid can be drawn.\<close>

lemma random_cell_any:
  assumes "\<not> out_of_bounds c"
  shows "random_cell (\<lambda>n. if n = pos then nat (fst c) else nat (snd c)) pos = c"
proof -
  obtain a b where c: "c = (a, b)" by (cases c)
  from assms c have "0 \<le> a" "a < 40" "0 \<le> b" "b < 30"
    by (simp_all add: out_of_bounds_def grid_size)
  then have "int (nat a mod 40) = a" "int (nat b mod 30) = b"
    by simp_all
  with c show ?thesis
    by (simp add: random_cell_def randint_def grid_size)
qed

lemma full_snake_covers:
  assumes "\<not> out_of_bounds c"
  shows "c \<in> set full_snake"
proof -
  obtain a b where c: "c = (a, b)" by (cases c)
  from assms c have ab: "0 \<le> a" "a < GRID_WIDTH" "0 \<le> b" "b < GRID_HEIGHT"
    by (simp_all add: out_of_bounds_def)
  define y where "y = (if even a then b else GRID_HEIGHT - 1 - b)"
  have y1: "y \<in> set [0..GRID_HEIGHT - 1]"
    unfolding set_upto atLeastAtMost_iff y_def using ab by auto
  have y2: "(a, b) = (a, if even a then y else GRID_HEIGHT - 1 - y)"
    unfolding y_def by simp
  have col: "(a, b) \<in> set (snake_column a)"
    unfolding snake_column_def set_map
    by (rule image_eqI[where x = y and f = "\<lambda>y. (a, if even a then y else GRID_HEIGHT - 1 - y)",
          OF y2 y1])
  have a: "a \<in> set [0..GRID_WIDTH - 1]"
    unfolding set_upto atLeastAtMost_iff using ab by simp
  have "snake_column a \<in> set (map snake_column [0..GRID_WIDTH - 1])"
    unfolding set_map by (rule imageI[OF a])
  then show ?thesis
    unfolding c full_snake_def set_concat using col by (rule UN_I)
qed

text \<open>On a snake that covers the grid no candidate is ever accepted, whatever is drawn.\<close>

lemma generate_food_full_grid:
  assumes "\<And>c. \<not> out_of_bounds c \<Longrightarrow> c \<in> set sn"
  shows "generate_food sn tape pos = None"
proof (cases "generate_food sn tape pos")
  case None
  then show ?thesis .
next
  case (Some r)
  from generate_food_Some[OF this] obtain k where "random_cell tape (pos + 2 * k) \<notin> set sn"
    by blast
  with assms[OF random_cell_in_grid] show ?thesis by blast
qed

subsection \<open>Score and power-ups during the move\<close>

lemma consume_powerups_score:
  "score (consume_powerups nh ps g) =
     score g + 50 * int (length (filter (\<lambda>p. (pu_x p, pu_y p) = nh \<and> pu_type p = ''score'') ps))"
  by (induction ps arbitrary: g) (auto simp add: Let_def)

lemma after_move_score:
  "score (after_move nh g) =
     score g + 50 * int (length (filter (\<lambda>p. (pu_x p, pu_y p) = nh \<and> pu_type p = ''score'')
                                   (powerups g)))"
  by (simp add: after_move_def update_powerups_def update_invincible_def Let_def
      consume_powerups_score)

text \<open>A power-up is never spawned on the snake.\<close>

lemma generate_powerup_powerups:
  "\<exists>extra. powerups (generate_powerup g) = powerups g @ extra \<and>
     (\<forall>p\<in>set extra. (pu_x p, pu_y p) \<notin> set (snake g))"
  by (simp add: generate_powerup_def Let_def PowerUp_init_def)

text \<open>The tick that eats and finds the new food \<open>f\<close>.\<close>

lemma move_snake_grow:
  assumes gf: "generate_food (food g # snake g) (rng_tape g) (rng_pos g) = Some (f, pos')"
  shows "\<exists>g'. move_snake (food g) g = Returns g' \<and> state g' = state g \<and>
     snake g' = food g # snake g \<and>
     score g' = score g + 10 +
       50 * int (length (filter (\<lambda>p. (pu_x p, pu_y p) = food g \<and> pu_type p = ''score'')
                                (powerups g))) \<and>
     food g' = f \<and> f \<notin> set (snake g') \<and> \<not> out_of_bounds f"
proof -
  let ?nh = "food g"
  let ?g3 = "g\<lparr>snake := ?nh # snake g, score := score g + 10, food := f, rng_pos := pos'\<rparr>"
  let ?g' = "after_move ?nh (generate_powerup ?g3)"
  have m: "move_snake ?nh g = Returns ?g'"
    by (rule move_snake_eats[OF gf])
  from generate_powerup_powerups[of ?g3] obtain extra where
    ex: "powerups (generate_powerup ?g3) = powerups g @ extra"
      "\<forall>p\<in>set extra. (pu_x p, pu_y p) \<notin> set (?nh # snake g)"
    by auto
  have "filter (\<lambda>p. (pu_x p, pu_y p) = ?nh \<and> pu_type p = ''score'') extra = []"
    using ex(2) by (auto simp add: filter_empty_conv)
  then have sc: "score ?g' = score g + 10 +
       50 * int (length (filter (\<lambda>p. (pu_x p, pu_y p) = ?nh \<and> pu_type p = ''score'')
                                (powerups g)))"
    by (simp add: after_move_score ex(1) generate_powerup_frame)
  have sn: "snake ?g' = ?nh # snake g" and fd: "food ?g' = f" and st: "state ?g' = state g"
    by (simp_all add: after_move_frame generate_powerup_frame)
  from generate_food_Some[OF gf] have "f \<notin> set (?nh # snake g)" "\<not> out_of_bounds f"
    using random_cell_in_grid by auto
  with m sc sn fd st show ?thesis by simp
qed

text \<open>
  A snake that covers the grid but for the cell (0, 0), with the food on that cell,
  leaves the food loop nothing to accept.
\<close>

lemma almost_full_snake_covers:
  assumes "\<not> out_of_bounds c"
  shows "c \<in> set ((0, 0) # almost_full_snake)"
  using full_snake_covers[OF assms] by (auto simp add: almost_full_snake_def)

lemma almost_full_snake_free: "(0, 0) \<notin> set almost_full_snake"
  by (simp add: almost_full_snake_def)

subsection \<open>Two sessions, tick by tick\<close>

lemmas food_eval = generate_food_free generate_food_occupied random_cell_def randint_def
  grid_size tape_of_def

lemmas head_eval = update_def move_snake_def step_head_def out_of_bounds_def wrap_def
  grid_size mk_game_def run_game_def Let_def FPS_def

lemmas spawn_eval = generate_powerup_def Let_def random_lt_03_def random_choice_def
  randint_def grid_size tape_of_def

lemmas after_eval = after_move_def update_invincible_def update_powerups_def
  PowerUp_update_def PowerUp_init_def

lemma dup_run0:
  "reset_game (run_game dup_draws 0 [] (0, 0) [] 0) =
     Some (run_game dup_draws 2 [(20, 15)] (21, 15) [] 0)"
proof -
  have f: "generate_food [(20, 15)] (tape_of dup_draws) 0 = Some ((21, 15), 2)"
    by (simp add: food_eval dup_draws_def)
  show ?thesis
    by (simp add: reset_game_def load_high_score_def grid_size mk_game_def run_game_def
        FPS_def f)
qed

lemma dup_run1:
  "update (run_game dup_draws 2 [(20, 15)] (21, 15) [] 0) =
     Returns (run_game dup_draws 8 [(21, 15), (20, 15)] (22, 15)
       [(PowerUp_init 23 15 ''invincible'')\<lparr>lifetime := 299\<rparr>] 10)"
proof -
  have f: "generate_food [(21, 15), (20, 15)] (tape_of dup_draws) 2 = Some ((22, 15), 4)"
    by (simp add: food_eval dup_draws_def)
  show ?thesis
    apply (simp add: head_eval f)
    apply (simp add: spawn_eval dup_draws_def)
    apply (simp add: after_eval)
    done
qed

lemma dup_run2:
  "update (run_game dup_draws 8 [(21, 15), (20, 15)] (22, 15)
       [(PowerUp_init 23 15 ''invincible'')\<lparr>lifetime := 299\<rparr>] 10) =
     Returns (run_game dup_draws 11 [(22, 15), (21, 15), (20, 15)] (0, 0)
       [(PowerUp_init 23 15 ''invincible'')\<lparr>lifetime := 298\<rparr>] 20)"
proof -
  have f: "generate_food [(22, 15), (21, 15), (20, 15)] (tape_of dup_draws) 8 = Some ((0, 0), 10)"
    by (simp add: food_eval dup_draws_def)
  show ?thesis
    apply (simp add: head_eval f)
    apply (simp add: spawn_eval dup_draws_def)
    apply (simp add: after_eval)
    done
qed

lemma dup_run3:
  "update (run_game dup_draws 11 [(22, 15), (21, 15), (20, 15)] (0, 0)
       [(PowerUp_init 23 15 ''invincible'')\<lparr>lifetime := 298\<rparr>] 20) =
     Returns ((run_game dup_draws 11 [(23, 15), (22, 15), (21, 15)] (0, 0) [] 20)
       \<lparr>invincible := True, invincible_timer := 299\<rparr>)"
  apply (simp add: head_eval)
  apply (simp add: after_eval)
  done

lemma dup_run4:
  "handle_input [KEYDOWN K_UP, KEYDOWN K_LEFT]
     ((run_game dup_draws 11 [(23, 15), (22, 15), (21, 15)] (0, 0) [] 20)
       \<lparr>invincible := True, invincible_timer := 299\<rparr>) =
   Some (True, (run_game dup_draws 11 [(23, 15), (22, 15), (21, 15)] (0, 0) [] 20)
       \<lparr>invincible := True, invincible_timer := 299, direction := LEFT\<rparr>)"
  by (simp add: handle_event_def mk_game_def run_game_def)

lemma dup_run5:
  "update ((run_game dup_draws 11 [(23, 15), (22, 15), (21, 15)] (0, 0) [] 20)
       \<lparr>invincible := True, invincible_timer := 299, direction := LEFT\<rparr>) =
   Returns ((run_game dup_draws 11 [(22, 15), (23, 15), (22, 15)] (0, 0) [] 20)
       \<lparr>invincible := True, invincible_timer := 298, direction := LEFT\<rparr>)"
  apply (simp add: head_eval)
  apply (simp add: after_eval)
  done

lemma bonus_run0:
  "reset_game (run_game bonus_draws 0 [] (0, 0) [] 0) =
     Some (run_game bonus_draws 2 [(20, 15)] (21, 15) [] 0)"
proof -
  have f: "generate_food [(20, 15)] (tape_of bonus_draws) 0 = Some ((21, 15), 2)"
    by (simp add: food_eval bonus_draws_def)
  show ?thesis
    by (simp add: reset_game_def load_high_score_def grid_size mk_game_def run_game_def
        FPS_def f)
qed

lemma bonus_run1:
  "update (run_game bonus_draws 2 [(20, 15)] (21, 15) [] 0) =
     Returns (run_game bonus_draws 8 [(21, 15), (20, 15)] (22, 15)
       [(PowerUp_init 23 15 ''score'')\<lparr>lifetime := 299\<rparr>] 10)"
proof -
  have f: "generate_food [(21, 15), (20, 15)] (tape_of bonus_draws) 2 = Some ((22, 15), 4)"
    by (simp add: food_eval bonus_draws_def)
  show ?thesis
    apply (simp add: head_eval f)
    apply (simp add: spawn_eval bonus_draws_def)
    apply (simp add: after_eval)
    done
qed

lemma bonus_run2:
  "update (run_game bonus_draws 8 [(21, 15), (20, 15)] (22, 15)
       [(PowerUp_init 23 15 ''score'')\<lparr>lifetime := 299\<rparr>] 10) =
     Returns (run_game bonus_draws 11 [(22, 15), (21, 15), (20, 15)] (23, 15)
       [(PowerUp_init 23 15 ''score'')\<lparr>lifetime := 298\<rparr>] 20)"
proof -
  have f: "generate_food [(22, 15), (21, 15), (20, 15)] (tape_of bonus_draws) 8 =
      Some ((23, 15), 10)"
    by (simp add: food_eval bonus_draws_def)
  show ?thesis
    apply (simp add: head_eval f)
    apply (simp add: spawn_eval bonus_draws_def)
    apply (simp add: after_eval)
    done
qed

lemma bonus_run3:
  "update (run_game bonus_draws 11 [(22, 15), (21, 15), (20, 15)] (23, 15)
       [(PowerUp_init 23 15 ''score'')\<lparr>lifetime := 298\<rparr>] 20) =
     Returns (run_game bonus_draws 14 [(23, 15), (22, 15), (21, 15), (20, 15)] (0, 0) [] 80)"
proof -
  have f: "generate_food [(23, 15), (22, 15), (21, 15), (20, 15)] (tape_of bonus_draws) 11 =
      Some ((0, 0), 13)"
    by (simp add: food_eval bonus_draws_def)
  show ?thesis
    apply (simp add: head_eval f)
    apply (simp add: spawn_eval bonus_draws_def)
    apply (simp add: after_eval)
    done
qed

subsection \<open>Updates outside the playing state\<close>

text \<open>
  C10. Whenever the state is not \<open>PLAYING\<close> (so \<open>PAUSED\<close>, \<open>GAME_OVER\<close> or
  \<open>NEW_HIGH_SCORE\<close>), \<^verbatim>\<open>update\<close> returns and leaves the whole object as it was: snake,
  direction, food, score, power-ups with their lifetimes, the invincible flag and its
  timer, and also the file and the random generator.
\<close>

theorem update_noop_outside_playing:
  "state g \<noteq> PLAYING \<Longrightarrow> update g = Returns g"
  by (simp add: update_def)

theorem update_noop_outside_playing_witness:
  "state ((mk_game [(5, 5)] RIGHT (9, 9))\<lparr>state := PAUSED, invincible := True,
      invincible_timer := 7, powerups := [PowerUp_init 3 3 ''speed'']\<rparr>) \<noteq> PLAYING \<and>
   update ((mk_game [(5, 5)] RIGHT (9, 9))\<lparr>state := PAUSED, invincible := True,
      invincible_timer := 7, powerups := [PowerUp_init 3 3 ''speed'']\<rparr>) =
     Returns ((mk_game [(5, 5)] RIGHT (9, 9))\<lparr>state := PAUSED, invincible := True,
      invincible_timer := 7, powerups := [PowerUp_init 3 3 ''speed'']\<rparr>)"
  using update_noop_outside_playing
    [of "(mk_game [(5, 5)] RIGHT (9, 9))\<lparr>state := PAUSED, invincible := True,
      invincible_timer := 7, powerups := [PowerUp_init 3 3 ''speed'']\<rparr>"]
  by simp

subsection \<open>The game-over transition\<close>




subsection \<open>Collisions stop the tick\<close>




subsection \<open>Moving onto the tail\<close>

text \<open>
  C1 fails as stated. The snake is a closed loop of four segments, the candidate head
  is the cell of the tail and of no other segment, the food is elsewhere, the game is
  not invincible. The self test of line 152 looks at the whole list, tail included, so
  the tick goes into \<^verbatim>\<open>game_over\<close>. With the score 30 below the high score 50 the game
  is over. With the score 30 above the high score 0 and a file that cannot be opened
  the same move is a self collision all the same, and \<^verbatim>\<open>game_over\<close> raises.
\<close>

theorem tail_move_is_collision:
  "state ((mk_game [(5, 5), (5, 6), (6, 6), (6, 5)] RIGHT (0, 0))
      \<lparr>score := 30, high_score := 50, high_score_file := Some 50\<rparr>) = PLAYING \<and>
   \<not> invincible ((mk_game [(5, 5), (5, 6), (6, 6), (6, 5)] RIGHT (0, 0))
      \<lparr>score := 30, high_score := 50, high_score_file := Some 50\<rparr>) \<and>
   step_head (5, 5) RIGHT = last [(5, 5), (5, 6), (6, 6), (6, 5)] \<and>
   step_head (5, 5) RIGHT \<notin> set (butlast [(5, 5), (5, 6), (6, 6), (6, 5)]) \<and>
   step_head (5, 5) RIGHT \<noteq> food ((mk_game [(5, 5), (5, 6), (6, 6), (6, 5)] RIGHT (0, 0))
      \<lparr>score := 30, high_score := 50, high_score_file := Some 50\<rparr>) \<and>
   update ((mk_game [(5, 5), (5, 6), (6, 6), (6, 5)] RIGHT (0, 0))
      \<lparr>score := 30, high_score := 50, high_score_file := Some 50\<rparr>) =
     Returns ((mk_game [(5, 5), (5, 6), (6, 6), (6, 5)] RIGHT (0, 0))
      \<lparr>score := 30, high_score := 50, high_score_file := Some 50, state := GAME_OVER\<rparr>) \<and>
   update ((mk_game [(5, 5), (5, 6), (6, 6), (6, 5)] RIGHT (0, 0))
      \<lparr>score := 30, high_score_write := OPEN_FAILS\<rparr>) =
     Raises OSError ((mk_game [(5, 5), (5, 6), (6, 6), (6, 5)] RIGHT (0, 0))
      \<lparr>score := 30, high_score := 30, high_score_write := OPEN_FAILS\<rparr>)"
  by (simp add: update_def game_over_def save_high_score_def step_head_def out_of_bounds_def
      grid_size mk_game_def Let_def)

text \<open>
  C1 as amended. The self test includes the tail: on every tick in the playing state,
  not invincible, whose candidate head is the position of the current tail segment,
  the move is a self collision (the tick does what \<^verbatim>\<open>game_over\<close> does and stops), and
  the game goes to \<open>GAME_OVER\<close> or \<open>NEW_HIGH_SCORE\<close> whenever no high-score write is
  attempted or the write succeeds.
\<close>

theorem self_collision_includes_tail:
  assumes "state g = PLAYING" "snake g = h # t" "\<not> invincible g"
    "step_head h (direction g) = last (snake g)"
  shows "update g = game_over g \<and>
    (score g \<le> high_score g \<or> high_score_write g = WRITE_OK \<longrightarrow>
       (\<exists>g'. update g = Returns g' \<and> (state g' = GAME_OVER \<or> state g' = NEW_HIGH_SCORE)))"
proof -
  have "step_head h (direction g) \<in> set (snake g)"
    using assms(2,4) last_in_set[of "snake g"] by simp
  then have u: "update g = game_over g"
    using update_collision[OF assms(1-3)] by simp
  have "\<exists>g'. update g = Returns g' \<and> (state g' = GAME_OVER \<or> state g' = NEW_HIGH_SCORE)"
    if "score g \<le> high_score g \<or> high_score_write g = WRITE_OK"
  proof -
    from that game_over_returns_iff[of g] obtain g' where r: "game_over g = Returns g'"
      by blast
    from game_over_Returns_state[OF r] r u show ?thesis by simp
  qed
  with u show ?thesis by blast
qed

theorem self_collision_includes_tail_witness:
  "step_head (10, 10) RIGHT = last [(10, 10), (10, 11), (11, 11), (11, 10)] \<and>
   update ((mk_game [(10, 10), (10, 11), (11, 11), (11, 10)] RIGHT (0, 0))\<lparr>score := 30\<rparr>) =
     Returns ((mk_game [(10, 10), (10, 11), (11, 11), (11, 10)] RIGHT (0, 0))
       \<lparr>score := 30, high_score := 30, high_score_file := Some 30, state := NEW_HIGH_SCORE\<rparr>) \<and>
   (\<exists>g'. update ((mk_game [(10, 10), (10, 11), (11, 11), (11, 10)] RIGHT (0, 0))
              \<lparr>score := 30\<rparr>) = Returns g' \<and>
         (state g' = GAME_OVER \<or> state g' = NEW_HIGH_SCORE))"
proof -
  let ?g = "(mk_game [(10, 10), (10, 11), (11, 11), (11, 10)] RIGHT (0, 0))\<lparr>score := 30\<rparr>"
  have h: "state ?g = PLAYING" "snake ?g = (10, 10) # [(10, 11), (11, 11), (11, 10)]"
    "\<not> invincible ?g" "step_head (10, 10) (direction ?g) = last (snake ?g)"
    by (simp_all add: mk_game_def step_head_def)
  have w: "score ?g \<le> high_score ?g \<or> high_score_write ?g = WRITE_OK"
    by (simp add: mk_game_def)
  have 1: "update ?g = game_over ?g"
    using self_collision_includes_tail[OF h] by blast
  have 2: "\<exists>g'. update ?g = Returns g' \<and> (state g' = GAME_OVER \<or> state g' = NEW_HIGH_SCORE)"
    using self_collision_includes_tail[OF h] w by blast
  from 1 have "update ?g = Returns (?g\<lparr>high_score := 30, high_score_file := Some 30,
      state := NEW_HIGH_SCORE\<rparr>)"
    by (simp add: game_over_def save_high_score_def mk_game_def Let_def)
  with 2 show ?thesis
    by (simp add: step_head_def)
qed

subsection \<open>Walls\<close>




subsection \<open>Direction keys\<close>

text \<open>An arrow key that does not ask for the reverse sets the direction it asks for.\<close>

lemma key_direction_applied:
  "state g = PLAYING \<Longrightarrow> key_direction k = Some d \<Longrightarrow> \<not> is_reverse (direction g) d \<Longrightarrow>
   handle_event (KEYDOWN k) g = Some (True, g\<lparr>direction := d\<rparr>)"
  by (cases k; cases "direction g"; cases d;
      simp add: handle_event_def key_direction_def is_reverse_def)

text \<open>
  C6. While playing, a key that asks for the exact reverse of the current direction
  changes nothing: the event is processed, the loop goes on, and the object, its
  direction included, is as before, so the next move is in the prior direction.
\<close>

theorem reversal_rejected:
  assumes "state g = PLAYING" "key_direction k = Some d" "is_reverse (direction g) d"
  shows "handle_event (KEYDOWN k) g = Some (True, g) \<and>
         handle_input [KEYDOWN k] g = Some (True, g)"
  using assms
  by (cases k; cases "direction g"; cases d;
      simp add: handle_event_def key_direction_def is_reverse_def)

theorem reversal_rejected_witness:
  "state (mk_game [(5, 5)] RIGHT (9, 9)) = PLAYING \<and> key_direction K_LEFT = Some LEFT \<and>
   is_reverse (direction (mk_game [(5, 5)] RIGHT (9, 9))) LEFT \<and>
   handle_event (KEYDOWN K_LEFT) (mk_game [(5, 5)] RIGHT (9, 9)) =
     Some (True, mk_game [(5, 5)] RIGHT (9, 9)) \<and>
   handle_input [KEYDOWN K_LEFT] (mk_game [(5, 5)] RIGHT (9, 9)) =
     Some (True, mk_game [(5, 5)] RIGHT (9, 9))"
proof -
  have h: "state (mk_game [(5, 5)] RIGHT (9, 9)) = PLAYING" "key_direction K_LEFT = Some LEFT"
    "is_reverse (direction (mk_game [(5, 5)] RIGHT (9, 9))) LEFT"
    by (simp_all add: mk_game_def key_direction_def is_reverse_def)
  from reversal_rejected[OF h] h show ?thesis by blast
qed

subsection \<open>Food placement\<close>

text \<open>
  C8 fails as stated. On a snake that fills the grid \<^verbatim>\<open>generate_food\<close> never returns:
  it has no exit other than a free candidate, and nothing signals a full grid. Here
  the draws are 0, 1, 2, ...
\<close>

theorem generate_food_full_grid_diverges:
  "generate_food full_snake (\<lambda>n. n) 0 = None"
  by (rule generate_food_full_grid) (rule full_snake_covers)

text \<open>
  C8 as amended. \<^verbatim>\<open>generate_food\<close> returns exactly when some candidate it draws is not
  on the snake. It then returns the first such candidate, which is a cell of the grid
  and on no snake segment, having consumed the draws up to it.
\<close>

theorem generate_food_first_free:
  "(generate_food sn tape pos \<noteq> None) = (\<exists>k. random_cell tape (pos + 2 * k) \<notin> set sn) \<and>
   (\<forall>f pos'. generate_food sn tape pos = Some (f, pos') \<longrightarrow>
      f \<notin> set sn \<and> \<not> out_of_bounds f \<and>
      (\<exists>k. f = random_cell tape (pos + 2 * k) \<and> pos' = pos + 2 * k + 2 \<and>
           (\<forall>j<k. random_cell tape (pos + 2 * j) \<in> set sn)))"
proof (intro conjI allI impI)
  show "(generate_food sn tape pos \<noteq> None) = (\<exists>k. random_cell tape (pos + 2 * k) \<notin> set sn)"
  proof
    assume "generate_food sn tape pos \<noteq> None"
    then obtain r where "generate_food sn tape pos = Some r" by blast
    from generate_food_Some[OF this] show "\<exists>k. random_cell tape (pos + 2 * k) \<notin> set sn"
      by blast
  next
    assume "\<exists>k. random_cell tape (pos + 2 * k) \<notin> set sn"
    then show "generate_food sn tape pos \<noteq> None"
      using generate_food_finds by fastforce
  qed
next
  fix f pos' assume r: "generate_food sn tape pos = Some (f, pos')"
  from generate_food_Some[OF r] obtain k where k:
    "f = random_cell tape (pos + 2 * k)" "pos' = pos + 2 * k + 2"
    "random_cell tape (pos + 2 * k) \<notin> set sn"
    "\<forall>j<k. random_cell tape (pos + 2 * j) \<in> set sn"
    by blast
  show "f \<notin> set sn" using k(1,3) by simp
  show "\<not> out_of_bounds f" using k(1) random_cell_in_grid by simp
  show "\<exists>k. f = random_cell tape (pos + 2 * k) \<and> pos' = pos + 2 * k + 2 \<and>
           (\<forall>j<k. random_cell tape (pos + 2 * j) \<in> set sn)"
    using k by blast
qed

theorem generate_food_first_free_witness:
  "generate_food [(0, 0)] (tape_of [0, 0, 3, 4]) 0 = Some ((3, 4), 4) \<and>
   (3, 4) \<notin> set [(0 :: int, 0 :: int)] \<and> \<not> out_of_bounds (3, 4)"
proof -
  have e: "generate_food [(0, 0)] (tape_of [0, 0, 3, 4]) 0 = Some ((3, 4), 4)"
    by (simp add: food_eval)
  from generate_food_first_free[of "[(0, 0)]" "tape_of [0, 0, 3, 4]" 0] e
  have "(3, 4) \<notin> set [(0 :: int, 0 :: int)] \<and> \<not> out_of_bounds (3, 4)"
    by blast
  with e show ?thesis by blast
qed

subsection \<open>Duplicate segments\<close>

text \<open>
  C2 fails as stated. In the session on the draws \<open>dup_draws\<close> the snake eats twice,
  takes an invincibility power-up, and the keys UP and LEFT arrive within one tick.
  The next tick, taken while invincible, moves the head back onto the neck: the game
  goes on in the playing state and the snake holds the cell (22, 15) twice.
\<close>

theorem invincible_tick_duplicates:
  "reachable ((run_game dup_draws 11 [(23, 15), (22, 15), (21, 15)] (0, 0) [] 20)
       \<lparr>invincible := True, invincible_timer := 299, direction := LEFT\<rparr>) \<and>
   update ((run_game dup_draws 11 [(23, 15), (22, 15), (21, 15)] (0, 0) [] 20)
       \<lparr>invincible := True, invincible_timer := 299, direction := LEFT\<rparr>) =
     Returns ((run_game dup_draws 11 [(22, 15), (23, 15), (22, 15)] (0, 0) [] 20)
       \<lparr>invincible := True, invincible_timer := 298, direction := LEFT\<rparr>) \<and>
   state ((run_game dup_draws 11 [(22, 15), (23, 15), (22, 15)] (0, 0) [] 20)
       \<lparr>invincible := True, invincible_timer := 298, direction := LEFT\<rparr>) = PLAYING \<and>
   \<not> distinct (snake ((run_game dup_draws 11 [(22, 15), (23, 15), (22, 15)] (0, 0) [] 20)
       \<lparr>invincible := True, invincible_timer := 298, direction := LEFT\<rparr>))"
proof -
  have "reachable (run_game dup_draws 2 [(20, 15)] (21, 15) [] 0)"
    by (rule reachable.start[OF dup_run0])
  then have "reachable (run_game dup_draws 8 [(21, 15), (20, 15)] (22, 15)
       [(PowerUp_init 23 15 ''invincible'')\<lparr>lifetime := 299\<rparr>] 10)"
    by (rule reachable.tick[OF _ dup_run1])
  then have "reachable (run_game dup_draws 11 [(22, 15), (21, 15), (20, 15)] (0, 0)
       [(PowerUp_init 23 15 ''invincible'')\<lparr>lifetime := 298\<rparr>] 20)"
    by (rule reachable.tick[OF _ dup_run2])
  then have "reachable ((run_game dup_draws 11 [(23, 15), (22, 15), (21, 15)] (0, 0) [] 20)
       \<lparr>invincible := True, invincible_timer := 299\<rparr>)"
    by (rule reachable.tick[OF _ dup_run3])
  then have "reachable ((run_game dup_draws 11 [(23, 15), (22, 15), (21, 15)] (0, 0) [] 20)
       \<lparr>invincible := True, invincible_timer := 299, direction := LEFT\<rparr>)"
    by (rule reachable.input[OF _ dup_run4])
  then show ?thesis
    using dup_run5 by (simp add: run_game_def mk_game_def)
qed

text \<open>
  C2 as amended. A tick taken in the playing state while invincible is false, from a
  snake without duplicate positions, that completes without ending the game leaves a
  snake without duplicate positions. (Ticks taken while invincible skip the self test
  and may produce duplicates.)
\<close>

theorem step_keeps_distinct:
  assumes "state g = PLAYING" "\<not> invincible g" "distinct (snake g)"
    "update g = Returns g'" "state g' = PLAYING"
  shows "distinct (snake g')"
proof (cases "snake g")
  case Nil
  with assms(1,4) show ?thesis by (simp add: update_def)
next
  case (Cons h t)
  let ?nh = "step_head h (direction g)"
  have nc: "\<not> out_of_bounds ?nh \<and> ?nh \<notin> set (snake g)"
  proof (rule ccontr)
    assume "\<not> ?thesis"
    then have "out_of_bounds ?nh \<or> ?nh \<in> set (snake g)" by blast
    from update_collision[OF assms(1) Cons assms(2) this] assms(4)
    have "game_over g = Returns g'" by simp
    from game_over_Returns_state[OF this] assms(5) show False by simp
  qed
  then have "update g = move_snake ?nh g"
    using update_moves[OF assms(1) Cons] by (simp add: landing_head_def)
  with assms(4) have "move_snake ?nh g = Returns g'" by simp
  from move_snake_snake[OF this] nc assms(3) show ?thesis
    by (auto simp add: distinct_butlast dest: in_set_butlastD)
qed

theorem step_keeps_distinct_witness:
  "distinct (snake (mk_game [(5, 5), (4, 5)] RIGHT (9, 9))) \<and>
   update (mk_game [(5, 5), (4, 5)] RIGHT (9, 9)) =
     Returns (mk_game [(6, 5), (5, 5)] RIGHT (9, 9)) \<and>
   distinct (snake (mk_game [(6, 5), (5, 5)] RIGHT (9, 9)))"
proof -
  let ?g = "mk_game [(5, 5), (4, 5)] RIGHT (9, 9)"
  let ?k = "mk_game [(6, 5), (5, 5)] RIGHT (9, 9)"
  have h: "state ?g = PLAYING" "\<not> invincible ?g" "distinct (snake ?g)"
    by (simp_all add: mk_game_def)
  have u: "update ?g = Returns ?k"
    apply (simp add: head_eval)
    apply (simp add: after_eval)
    done
  have k: "state ?k = PLAYING"
    by (simp add: mk_game_def)
  from step_keeps_distinct[OF h u k] h(3) u show ?thesis by blast
qed

subsection \<open>Length, score and food after a tick\<close>

text \<open>
  A tick in the playing state ends the game, by a state other than \<open>PLAYING\<close> or by
  the exception of \<^verbatim>\<open>game_over\<close>, exactly when it is a wall hit or a self hit while
  not invincible.
\<close>

lemma tick_ends_game_iff:
  assumes "state g = PLAYING" "snake g = h # t"
  shows "((\<exists>g'. update g = Returns g' \<and> state g' \<noteq> PLAYING) \<or> (\<exists>e g'. update g = Raises e g')) =
     (\<not> invincible g \<and>
      (out_of_bounds (step_head h (direction g)) \<or> step_head h (direction g) \<in> set (snake g)))"
proof (cases "\<not> invincible g \<and>
      (out_of_bounds (step_head h (direction g)) \<or> step_head h (direction g) \<in> set (snake g))")
  case True
  then have u: "update g = game_over g"
    using update_collision[OF assms] by blast
  from game_over_outcome[of g] obtain g' where
    "game_over g = Returns g' \<or> game_over g = Raises OSError g'" by blast
  then have "(\<exists>g'. update g = Returns g' \<and> state g' \<noteq> PLAYING) \<or>
      (\<exists>e g'. update g = Raises e g')"
    unfolding u using game_over_Returns_state by fastforce
  with True show ?thesis by blast
next
  case False
  then have "invincible g \<or> (\<not> out_of_bounds (step_head h (direction g)) \<and>
        step_head h (direction g) \<notin> set (snake g))"
    by blast
  from update_moves[OF assms this]
  have u: "update g = move_snake (landing_head h (direction g)) g" .
  have ne: "snake g \<noteq> []" using assms(2) by simp
  from move_snake_outcome[OF ne, of "landing_head h (direction g)"] assms(1)
  have "\<not> ((\<exists>g'. update g = Returns g' \<and> state g' \<noteq> PLAYING) \<or>
      (\<exists>e g'. update g = Raises e g'))"
    unfolding u using move_snake_not_raise by auto
  with False show ?thesis by blast
qed

lemma generate_food_returns_iff:
  "(generate_food sn tape pos \<noteq> None) = (\<exists>k. random_cell tape (pos + 2 * k) \<notin> set sn)"
proof
  assume "generate_food sn tape pos \<noteq> None"
  then obtain r where "generate_food sn tape pos = Some r" by blast
  from generate_food_Some[OF this] show "\<exists>k. random_cell tape (pos + 2 * k) \<notin> set sn"
    by blast
next
  assume "\<exists>k. random_cell tape (pos + 2 * k) \<notin> set sn"
  then show "generate_food sn tape pos \<noteq> None"
    using generate_food_finds by fastforce
qed

text \<open>
  C3 fails as stated, twice. In the session on the draws \<open>bonus_draws\<close> the third food
  is placed on the cell of a waiting score power-up (\<^verbatim>\<open>generate_food\<close> avoids the
  snake only); the tick that lands there goes on in the playing state and raises the
  score from 20 to 80, by 60 and not by 10. And when the snake covers the grid but for
  the cell of the food, the tick that eats it hangs in the food loop: the snake has
  grown and the score is raised by 10, and no new food is produced.
\<close>

theorem food_on_score_powerup_adds_sixty:
  "reachable (run_game bonus_draws 11 [(22, 15), (21, 15), (20, 15)] (23, 15)
       [(PowerUp_init 23 15 ''score'')\<lparr>lifetime := 298\<rparr>] 20) \<and>
   update (run_game bonus_draws 11 [(22, 15), (21, 15), (20, 15)] (23, 15)
       [(PowerUp_init 23 15 ''score'')\<lparr>lifetime := 298\<rparr>] 20) =
     Returns (run_game bonus_draws 14 [(23, 15), (22, 15), (21, 15), (20, 15)] (0, 0) [] 80) \<and>
   state (run_game bonus_draws 14 [(23, 15), (22, 15), (21, 15), (20, 15)] (0, 0) [] 80)
     = PLAYING \<and>
   landing_head (22, 15) RIGHT = (23, 15) \<and>
   (80 :: int) \<noteq> 20 + 10 \<and>
   state ((mk_game almost_full_snake UP (0, 0))\<lparr>score := 11980\<rparr>) = PLAYING \<and>
   \<not> invincible ((mk_game almost_full_snake UP (0, 0))\<lparr>score := 11980\<rparr>) \<and>
   hd almost_full_snake = (0, 1) \<and>
   landing_head (0, 1) UP = (0, 0) \<and>
   (0, 0) \<notin> set almost_full_snake \<and>
   update ((mk_game almost_full_snake UP (0, 0))\<lparr>score := 11980\<rparr>) =
     Hangs ((mk_game ((0, 0) # almost_full_snake) UP (0, 0))\<lparr>score := 11990\<rparr>)"
proof -
  have "reachable (run_game bonus_draws 2 [(20, 15)] (21, 15) [] 0)"
    by (rule reachable.start[OF bonus_run0])
  then have "reachable (run_game bonus_draws 8 [(21, 15), (20, 15)] (22, 15)
       [(PowerUp_init 23 15 ''score'')\<lparr>lifetime := 299\<rparr>] 10)"
    by (rule reachable.tick[OF _ bonus_run1])
  then have "reachable (run_game bonus_draws 11 [(22, 15), (21, 15), (20, 15)] (23, 15)
       [(PowerUp_init 23 15 ''score'')\<lparr>lifetime := 298\<rparr>] 20)"
    by (rule reachable.tick[OF _ bonus_run2])
  then have first: "reachable (run_game bonus_draws 11 [(22, 15), (21, 15), (20, 15)] (23, 15)
       [(PowerUp_init 23 15 ''score'')\<lparr>lifetime := 298\<rparr>] 20) \<and>
   update (run_game bonus_draws 11 [(22, 15), (21, 15), (20, 15)] (23, 15)
       [(PowerUp_init 23 15 ''score'')\<lparr>lifetime := 298\<rparr>] 20) =
     Returns (run_game bonus_draws 14 [(23, 15), (22, 15), (21, 15), (20, 15)] (0, 0) [] 80) \<and>
   state (run_game bonus_draws 14 [(23, 15), (22, 15), (21, 15), (20, 15)] (0, 0) [] 80)
     = PLAYING \<and>
   landing_head (22, 15) RIGHT = (23, 15) \<and>
   (80 :: int) \<noteq> 20 + 10"
    using bonus_run3
    by (simp add: run_game_def mk_game_def landing_head_def step_head_def out_of_bounds_def
        grid_size)
  let ?h = "(mk_game almost_full_snake UP (0, 0))\<lparr>score := 11980\<rparr>"
  let ?t = "filter (\<lambda>c. c \<noteq> (0, 0) \<and> c \<noteq> (0, 1)) full_snake"
  have st: "state ?h = PLAYING" "\<not> invincible ?h"
    by (simp_all add: mk_game_def)
  have sn: "snake ?h = (0, 1) # ?t"
    by (simp add: mk_game_def almost_full_snake_def)
  have hd: "hd almost_full_snake = (0, 1)"
    by (simp add: almost_full_snake_def)
  have sh: "step_head (0, 1) (direction ?h) = (0, 0)"
    by (simp add: step_head_def mk_game_def)
  have lh: "landing_head (0, 1) UP = (0, 0)"
    by (simp add: landing_head_def step_head_def out_of_bounds_def grid_size)
  have fr: "(0, 0) \<notin> set almost_full_snake"
    by (rule almost_full_snake_free)
  have nc: "invincible ?h \<or> (\<not> out_of_bounds (step_head (0, 1) (direction ?h)) \<and>
        step_head (0, 1) (direction ?h) \<notin> set (snake ?h))"
    unfolding sh using fr by (simp add: out_of_bounds_def grid_size mk_game_def)
  have l: "landing_head (0, 1) (direction ?h) = food ?h"
    using lh by (simp add: mk_game_def)
  have "generate_food (food ?h # snake ?h) (rng_tape ?h) (rng_pos ?h) = None"
  proof (rule generate_food_full_grid)
    fix c :: "int \<times> int" assume "\<not> out_of_bounds c"
    from almost_full_snake_covers[OF this] show "c \<in> set (food ?h # snake ?h)"
      by (simp add: mk_game_def)
  qed
  from move_snake_hangs[OF this] update_moves[OF st(1) sn nc] l
  have "update ?h = Hangs (?h\<lparr>snake := food ?h # snake ?h, score := score ?h + 10\<rparr>)"
    by simp
  then have second: "update ?h =
      Hangs ((mk_game ((0, 0) # almost_full_snake) UP (0, 0))\<lparr>score := 11990\<rparr>)"
    by (simp add: mk_game_def)
  from first st hd lh fr second show ?thesis by blast
qed

text \<open>
  C3 as amended. For a tick in the playing state that does not end the game (it is
  not a wall hit or a self hit while not invincible):
  if the landing head (the candidate, wrapped when outside the grid) is the food
  position and the food loop returns a cell, the tick returns in the playing state, the
  snake has grown by exactly one segment, the score has grown by 10 plus 50 for every
  score power-up lying on that cell (so by exactly 10 when there is none), and the new
  food is that cell, a cell of the grid on no snake segment;
  if the landing head is the food position and the food loop never returns, the tick
  hangs with the snake grown by one segment, the score raised by 10 and the old food;
  otherwise the tick returns in the playing state with the length of the snake
  unchanged.
  The tick returns exactly when the landing head is not the food or some candidate the
  food loop draws is not on the grown snake.
\<close>

theorem tick_length_and_food:
  assumes "state g = PLAYING" "snake g = h # t"
    "invincible g \<or> (\<not> out_of_bounds (step_head h (direction g)) \<and>
        step_head h (direction g) \<notin> set (snake g))"
  shows "(if landing_head h (direction g) = food g
          then (case generate_food (food g # snake g) (rng_tape g) (rng_pos g) of
                  Some (f, pos') \<Rightarrow>
                    \<exists>g'. update g = Returns g' \<and> state g' = PLAYING \<and>
                      length (snake g') = length (snake g) + 1 \<and>
                      score g' = score g + 10 +
                        50 * int (length (filter
                          (\<lambda>p. (pu_x p, pu_y p) = food g \<and> pu_type p = ''score'') (powerups g))) \<and>
                      food g' = f \<and> food g' \<notin> set (snake g') \<and> \<not> out_of_bounds (food g')
                | None \<Rightarrow>
                    \<exists>g'. update g = Hangs g' \<and> state g' = PLAYING \<and>
                      length (snake g') = length (snake g) + 1 \<and>
                      score g' = score g + 10 \<and> food g' = food g)
          else \<exists>g'. update g = Returns g' \<and> state g' = PLAYING \<and>
                 length (snake g') = length (snake g)) \<and>
         ((\<exists>g'. update g = Returns g') =
            (landing_head h (direction g) \<noteq> food g \<or>
             (\<exists>k. random_cell (rng_tape g) (rng_pos g + 2 * k) \<notin> set (food g # snake g))))"
proof -
  let ?nh = "landing_head h (direction g)"
  note u = update_moves[OF assms]
  have ret: "(\<exists>g'. update g = Returns g') =
      (?nh \<noteq> food g \<or>
       (\<exists>k. random_cell (rng_tape g) (rng_pos g + 2 * k) \<notin> set (food g # snake g)))"
  proof (cases "?nh = food g")
    case True
    show ?thesis
      unfolding u move_snake_returns_iff generate_food_returns_iff True by simp
  next
    case False
    then show ?thesis
      unfolding u move_snake_returns_iff by simp
  qed
  have main: "if ?nh = food g
          then (case generate_food (food g # snake g) (rng_tape g) (rng_pos g) of
                  Some (f, pos') \<Rightarrow>
                    \<exists>g'. update g = Returns g' \<and> state g' = PLAYING \<and>
                      length (snake g') = length (snake g) + 1 \<and>
                      score g' = score g + 10 +
                        50 * int (length (filter
                          (\<lambda>p. (pu_x p, pu_y p) = food g \<and> pu_type p = ''score'') (powerups g))) \<and>
                      food g' = f \<and> food g' \<notin> set (snake g') \<and> \<not> out_of_bounds (food g')
                | None \<Rightarrow>
                    \<exists>g'. update g = Hangs g' \<and> state g' = PLAYING \<and>
                      length (snake g') = length (snake g) + 1 \<and>
                      score g' = score g + 10 \<and> food g' = food g)
          else \<exists>g'. update g = Returns g' \<and> state g' = PLAYING \<and>
                 length (snake g') = length (snake g)"
  proof (cases "?nh = food g")
    case False
    from move_snake_plain[OF False]
    have "update g = Returns (after_move ?nh (g\<lparr>snake := butlast (?nh # snake g)\<rparr>))"
      unfolding u .
    then have "\<exists>g'. update g = Returns g' \<and> state g' = PLAYING \<and>
                 length (snake g') = length (snake g)"
      using assms(1,2) by (simp add: after_move_frame)
    with False show ?thesis by simp
  next
    case True
    show ?thesis
    proof (cases "generate_food (food g # snake g) (rng_tape g) (rng_pos g)")
      case None
      from move_snake_hangs[OF None]
      have "update g = Hangs (g\<lparr>snake := food g # snake g, score := score g + 10\<rparr>)"
        unfolding u True .
      then have "\<exists>g'. update g = Hangs g' \<and> state g' = PLAYING \<and>
                      length (snake g') = length (snake g) + 1 \<and>
                      score g' = score g + 10 \<and> food g' = food g"
        using assms(1) by simp
      with True None show ?thesis by simp
    next
      case (Some r)
      obtain f pos' where r: "r = (f, pos')" by (cases r)
      from move_snake_grow[OF Some[unfolded r]] assms(1)
      have "\<exists>g'. update g = Returns g' \<and> state g' = PLAYING \<and>
                      length (snake g') = length (snake g) + 1 \<and>
                      score g' = score g + 10 +
                        50 * int (length (filter
                          (\<lambda>p. (pu_x p, pu_y p) = food g \<and> pu_type p = ''score'') (powerups g))) \<and>
                      food g' = f \<and> food g' \<notin> set (snake g') \<and> \<not> out_of_bounds (food g')"
        unfolding u True by auto
      with True Some r show ?thesis by simp
    qed
  qed
  from main ret show ?thesis by blast
qed

theorem tick_length_and_food_witness:
  "landing_head (5, 5) RIGHT = food (mk_game [(5, 5), (4, 5)] RIGHT (6, 5)) \<and>
   generate_food [(6, 5), (5, 5), (4, 5)] (\<lambda>n. 0) 0 = Some ((0, 0), 2) \<and>
   (\<exists>g'. update (mk_game [(5, 5), (4, 5)] RIGHT (6, 5)) = Returns g' \<and> state g' = PLAYING \<and>
         length (snake g') = 3 \<and> score g' = 10 \<and> food g' = (0, 0) \<and>
         food g' \<notin> set (snake g')) \<and>
   update (mk_game [(5, 5), (4, 5)] RIGHT (6, 5)) =
     Returns ((mk_game [(6, 5), (5, 5), (4, 5)] RIGHT (0, 0))\<lparr>score := 10, rng_pos := 5\<rparr>) \<and>
   landing_head (5, 5) UP \<noteq> food (mk_game [(5, 5), (4, 5)] UP (6, 5)) \<and>
   (\<exists>g'. update (mk_game [(5, 5), (4, 5)] UP (6, 5)) = Returns g' \<and> state g' = PLAYING \<and>
         length (snake g') = 2) \<and>
   update (mk_game [(5, 5), (4, 5)] UP (6, 5)) = Returns (mk_game [(5, 4), (5, 5)] UP (6, 5))"
proof -
  let ?g = "mk_game [(5, 5), (4, 5)] RIGHT (6, 5)"
  let ?g' = "(mk_game [(6, 5), (5, 5), (4, 5)] RIGHT (0, 0))\<lparr>score := 10, rng_pos := 5\<rparr>"
  let ?k = "mk_game [(5, 5), (4, 5)] UP (6, 5)"
  let ?k' = "mk_game [(5, 4), (5, 5)] UP (6, 5)"
  have f: "generate_food [(6, 5), (5, 5), (4, 5)] (\<lambda>n. 0) 0 = Some ((0, 0), 2)"
    by (simp add: food_eval)
  have ug: "update ?g = Returns ?g'"
    apply (simp add: head_eval f)
    apply (simp add: spawn_eval)
    apply (simp add: after_eval)
    done
  have uk: "update ?k = Returns ?k'"
    apply (simp add: head_eval)
    apply (simp add: after_eval)
    done
  have g: "state ?g = PLAYING" "snake ?g = (5, 5) # [(4, 5)]"
    "invincible ?g \<or> (\<not> out_of_bounds (step_head (5, 5) (direction ?g)) \<and>
        step_head (5, 5) (direction ?g) \<notin> set (snake ?g))"
    by (simp_all add: mk_game_def step_head_def out_of_bounds_def grid_size)
  have k: "state ?k = PLAYING" "snake ?k = (5, 5) # [(4, 5)]"
    "invincible ?k \<or> (\<not> out_of_bounds (step_head (5, 5) (direction ?k)) \<and>
        step_head (5, 5) (direction ?k) \<notin> set (snake ?k))"
    by (simp_all add: mk_game_def step_head_def out_of_bounds_def grid_size)
  have l: "landing_head (5, 5) (direction ?g) = food ?g"
    "landing_head (5, 5) (direction ?k) \<noteq> food ?k"
    by (simp_all add: landing_head_def step_head_def out_of_bounds_def grid_size mk_game_def)
  have fg: "generate_food (food ?g # snake ?g) (rng_tape ?g) (rng_pos ?g) = Some ((0, 0), 2)"
    using f by (simp add: mk_game_def)
  from tick_length_and_food[OF g] l(1) fg
  have a: "\<exists>g'. update ?g = Returns g' \<and> state g' = PLAYING \<and>
         length (snake g') = length (snake ?g) + 1 \<and>
         score g' = score ?g + 10 +
           50 * int (length (filter
              (\<lambda>p. (pu_x p, pu_y p) = food ?g \<and> pu_type p = ''score'') (powerups ?g))) \<and>
         food g' = (0, 0) \<and> food g' \<notin> set (snake g') \<and> \<not> out_of_bounds (food g')"
    by simp
  from tick_length_and_food[OF k] l(2)
  have b: "\<exists>g'. update ?k = Returns g' \<and> state g' = PLAYING \<and>
         length (snake g') = length (snake ?k)"
    by simp
  from a obtain x where x: "update ?g = Returns x" "state x = PLAYING"
    "length (snake x) = length (snake ?g) + 1"
    "score x = score ?g + 10 +
           50 * int (length (filter
              (\<lambda>p. (pu_x p, pu_y p) = food ?g \<and> pu_type p = ''score'') (powerups ?g)))"
    "food x = (0, 0)" "food x \<notin> set (snake x)"
    by blast
  have a': "\<exists>g'. update ?g = Returns g' \<and> state g' = PLAYING \<and>
         length (snake g') = 3 \<and> score g' = 10 \<and> food g' = (0, 0) \<and>
         food g' \<notin> set (snake g')"
    using x by (intro exI[of _ x]) (simp add: mk_game_def)
  from b obtain y where y: "update ?k = Returns y" "state y = PLAYING"
    "length (snake y) = length (snake ?k)"
    by blast
  have b': "\<exists>g'. update ?k = Returns g' \<and> state g' = PLAYING \<and> length (snake g') = 2"
    using y by (intro exI[of _ y]) (simp add: mk_game_def)
  from a' b' ug uk l f show ?thesis
    by (simp add: mk_game_def)
qed

section \<open>Properties of the cellular automaton\<close>

subsection \<open>Reads and writes inside the grid\<close>

lemma py_nth_in_range: "0 \<le> i \<Longrightarrow> i < int (length xs) \<Longrightarrow> py_nth xs i = Inr (xs ! nat i)"
  by (simp add: py_nth_def)

lemma is_grid_row:
  assumes "is_grid grid" "0 \<le> i" "i < int (length grid)"
  shows "length (grid ! nat i) = length (hd grid)"
proof -
  have "grid ! nat i \<in> set grid" using assms(2,3) by simp
  with assms(1) show ?thesis unfolding is_grid_def by blast
qed

lemma is_grid_cell:
  assumes "is_grid grid" "0 \<le> i" "i < int (length grid)" "0 \<le> j" "j < int (length (hd grid))"
  shows "grid ! nat i ! nat j = 0 \<or> grid ! nat i ! nat j = 1"
proof -
  have r: "grid ! nat i \<in> set grid" using assms(2,3) by simp
  have "nat j < length (grid ! nat i)"
    using is_grid_row[OF assms(1-3)] assms(4,5) by simp
  then have "grid ! nat i ! nat j \<in> set (grid ! nat i)" by simp
  with r assms(1) show ?thesis unfolding is_grid_def by blast
qed

lemma torus_cell_read:
  assumes "is_grid grid" "hd grid \<noteq> []"
  shows "\<exists>row. py_nth grid (y mod int (length grid)) = Inr row \<and>
           py_nth row (x mod int (length (hd grid))) = Inr (torus_cell grid x y) \<and>
           (torus_cell grid x y = 0 \<or> torus_cell grid x y = 1)"
proof -
  let ?h = "int (length grid)" and ?w = "int (length (hd grid))"
  have "grid \<noteq> []" using assms(1) unfolding is_grid_def by blast
  then have h: "0 < ?h" by simp
  have w: "0 < ?w" using assms(2) by simp
  have y: "0 \<le> y mod ?h" "y mod ?h < ?h" using h by simp_all
  have x: "0 \<le> x mod ?w" "x mod ?w < ?w" using w by simp_all
  have len: "length (grid ! nat (y mod ?h)) = length (hd grid)"
    by (rule is_grid_row[OF assms(1) y])
  have 1: "py_nth grid (y mod ?h) = Inr (grid ! nat (y mod ?h))"
    by (rule py_nth_in_range[OF y])
  have 2: "py_nth (grid ! nat (y mod ?h)) (x mod ?w) = Inr (torus_cell grid x y)"
    unfolding torus_cell_def using x len by (simp add: py_nth_in_range)
  have 3: "torus_cell grid x y = 0 \<or> torus_cell grid x y = 1"
    unfolding torus_cell_def by (rule is_grid_cell[OF assms(1) y x])
  from 1 2 3 show ?thesis by blast
qed

lemma neighbor_loop_counts:
  assumes "is_grid grid" "hd grid \<noteq> []"
  shows "neighbor_loop grid (int (length (hd grid))) (int (length grid)) x y offs count =
     Inr (count + int (length (filter (\<lambda>(dx, dy). torus_cell grid (x + dx) (y + dy) = 1)
                                  (filter (\<lambda>(dx, dy). \<not> (dx = 0 \<and> dy = 0)) offs))))"
proof (induction offs arbitrary: count)
  case Nil
  show ?case by simp
next
  case (Cons off offs)
  obtain dx dy where off: "off = (dx, dy)" by (cases off)
  have "grid \<noteq> []" using assms(1) unfolding is_grid_def by blast
  then have h: "int (length grid) \<noteq> 0" by simp
  have w: "int (length (hd grid)) \<noteq> 0" using assms(2) by simp
  from torus_cell_read[OF assms, of "y + dy" "x + dx"] obtain row where
    r: "py_nth grid ((y + dy) mod int (length grid)) = Inr row"
       "py_nth row ((x + dx) mod int (length (hd grid))) = Inr (torus_cell grid (x + dx) (y + dy))"
       "torus_cell grid (x + dx) (y + dy) = 0 \<or> torus_cell grid (x + dx) (y + dy) = 1"
    by blast
  show ?case
  proof (cases "dx = 0 \<and> dy = 0")
    case True
    then show ?thesis using Cons.IH by (simp add: off)
  next
    case False
    have "neighbor_loop grid (int (length (hd grid))) (int (length grid)) x y (off # offs) count =
      neighbor_loop grid (int (length (hd grid))) (int (length grid)) x y offs
        (count + torus_cell grid (x + dx) (y + dy))"
    proof -
      have nz: "(dx = 0 \<and> dy = 0) = False" using False by simp
      show ?thesis
        unfolding off neighbor_loop.simps nz using h w r(1,2) by (simp add: Let_def)
    qed
    also have "\<dots> = Inr (count + torus_cell grid (x + dx) (y + dy) +
        int (length (filter (\<lambda>(dx, dy). torus_cell grid (x + dx) (y + dy) = 1)
                                  (filter (\<lambda>(dx, dy). \<not> (dx = 0 \<and> dy = 0)) offs))))"
      by (rule Cons.IH)
    also have "\<dots> = Inr (count +
        int (length (filter (\<lambda>(dx, dy). torus_cell grid (x + dx) (y + dy) = 1)
                                  (filter (\<lambda>(dx, dy). \<not> (dx = 0 \<and> dy = 0)) (off # offs)))))"
    proof -
      have keep: "filter (\<lambda>(dx, dy). \<not> (dx = 0 \<and> dy = 0)) (off # offs) =
          off # filter (\<lambda>(dx, dy). \<not> (dx = 0 \<and> dy = 0)) offs"
        using False by (simp add: off)
      from r(3) show ?thesis
      proof
        assume "torus_cell grid (x + dx) (y + dy) = 0"
        then show ?thesis unfolding keep by (simp add: off)
      next
        assume "torus_cell grid (x + dx) (y + dy) = 1"
        then show ?thesis unfolding keep by (simp add: off)
      qed
    qed
    finally show ?thesis .
  qed
qed

subsection \<open>Counting neighbours\<close>

lemma count_neighbors_live:
  assumes "is_grid grid" "hd grid \<noteq> []"
  shows "count_neighbors grid x y = Inr (live_neighbors grid x y)"
proof -
  have g: "grid \<noteq> []" using assms(1) unfolding is_grid_def by blast
  then have 0: "py_nth grid 0 = Inr (hd grid)"
    by (simp add: py_nth_def hd_conv_nth)
  have p: "filter (\<lambda>(dx, dy). \<not> (dx = 0 \<and> dy = 0)) (List.product [-1, 0, 1] [-1, 0, 1]) =
      neighbor_offsets"
    by (simp add: neighbor_offsets_def)
  show ?thesis
    unfolding count_neighbors_def 0 live_neighbors_def
    by (simp only: sum.case neighbor_loop_counts[OF assms] p) simp
qed

subsection \<open>The loop over the cells\<close>

lemma py_set_cell_in_range:
  assumes "0 \<le> y" "y < int (length ng)" "0 \<le> x" "x < int (length (ng ! nat y))"
  shows "py_set_cell ng y x v = Inr (ng[nat y := (ng ! nat y)[nat x := v]])"
  using assms by (simp add: py_set_cell_def py_nth_in_range)

lemma cells_loop_step:
  assumes "is_grid grid" "0 \<le> y" "y < int (length grid)" "0 \<le> x" "x < int (length (hd grid))"
    "length ng = length grid" "length (ng ! nat y) = length (hd grid)"
  shows "cells_loop grid ((y, x) # rest) ng =
     cells_loop grid rest
       (if life_rule grid x y then ng[nat y := (ng ! nat y)[nat x := 1]] else ng)"
proof -
  have ne: "hd grid \<noteq> []" using assms(4,5) by auto
  have c: "count_neighbors grid x y = Inr (live_neighbors grid x y)"
    by (rule count_neighbors_live[OF assms(1) ne])
  have r: "py_nth grid y = Inr (grid ! nat y)"
    by (rule py_nth_in_range[OF assms(2,3)])
  have "x < int (length (grid ! nat y))"
    using is_grid_row[OF assms(1-3)] assms(5) by simp
  then have v: "py_nth (grid ! nat y) x = Inr (grid ! nat y ! nat x)"
    by (rule py_nth_in_range[OF assms(4)])
  have s: "py_set_cell ng y x 1 = Inr (ng[nat y := (ng ! nat y)[nat x := 1]])"
    using assms by (intro py_set_cell_in_range) simp_all
  show ?thesis
    by (auto simp add: c r v s life_rule_def)
qed

lemma cells_loop_inv:
  assumes g: "is_grid grid"
  shows "length ng = length grid \<Longrightarrow> (\<forall>i<length grid. length (ng ! i) = length (hd grid)) \<Longrightarrow>
     (\<forall>p\<in>set ps. 0 \<le> fst p \<and> fst p < int (length grid) \<and> 0 \<le> snd p \<and>
         snd p < int (length (hd grid))) \<Longrightarrow>
     \<exists>ng'. cells_loop grid ps ng = Inr ng' \<and> length ng' = length grid \<and>
        (\<forall>i<length grid. length (ng' ! i) = length (hd grid)) \<and>
        (\<forall>i<length grid. \<forall>j<length (hd grid).
           ng' ! i ! j =
             (if (int i, int j) \<in> set ps \<and> life_rule grid (int j) (int i) then 1 else ng ! i ! j))"
proof (induction ps arbitrary: ng)
  case Nil
  then show ?case by simp
next
  case (Cons p ps)
  obtain y x where p: "p = (y, x)" by (cases p)
  from Cons.prems(3) p have b: "0 \<le> y" "y < int (length grid)" "0 \<le> x" "x < int (length (hd grid))"
    by simp_all
  have ly: "length (ng ! nat y) = length (hd grid)"
    using Cons.prems(2) b by simp
  let ?ng1 = "if life_rule grid x y then ng[nat y := (ng ! nat y)[nat x := 1]] else ng"
  have step: "cells_loop grid (p # ps) ng = cells_loop grid ps ?ng1"
    unfolding p by (rule cells_loop_step[OF g b Cons.prems(1) ly])
  have d1: "length ?ng1 = length grid"
    using Cons.prems(1) by simp
  have yn: "nat y < length ng"
    using b Cons.prems(1) by simp
  have d2: "\<forall>i<length grid. length (?ng1 ! i) = length (hd grid)"
    using Cons.prems(1,2) yn by (auto simp add: nth_list_update)
  have d3: "\<forall>p\<in>set ps. 0 \<le> fst p \<and> fst p < int (length grid) \<and> 0 \<le> snd p \<and>
         snd p < int (length (hd grid))"
    using Cons.prems(3) by simp
  from Cons.IH[OF d1 d2 d3] obtain ng' where ng':
    "cells_loop grid ps ?ng1 = Inr ng'" "length ng' = length grid"
    "\<forall>i<length grid. length (ng' ! i) = length (hd grid)"
    "\<forall>i<length grid. \<forall>j<length (hd grid).
           ng' ! i ! j =
             (if (int i, int j) \<in> set ps \<and> life_rule grid (int j) (int i) then 1 else ?ng1 ! i ! j)"
    by blast
  have cell: "ng' ! i ! j =
      (if (int i, int j) \<in> set (p # ps) \<and> life_rule grid (int j) (int i) then 1 else ng ! i ! j)"
    if ij: "i < length grid" "j < length (hd grid)" for i j
  proof -
    have e: "ng' ! i ! j =
        (if (int i, int j) \<in> set ps \<and> life_rule grid (int j) (int i) then 1 else ?ng1 ! i ! j)"
      using ng'(4) ij by blast
    have here: "((int i, int j) = (y, x)) = (i = nat y \<and> j = nat x)"
      using b by auto
    have n1: "?ng1 ! i ! j =
        (if (int i, int j) = (y, x) \<and> life_rule grid x y then 1 else ng ! i ! j)"
    proof (cases "life_rule grid x y")
      case False
      then show ?thesis by simp
    next
      case True
      have "i < length ng" using ij(1) Cons.prems(1) by simp
      moreover have "j < length (ng ! i)" using ij Cons.prems(2) by simp
      ultimately show ?thesis
        unfolding here using True yn by (auto simp add: nth_list_update)
    qed
    show ?thesis
      unfolding e n1 p by auto
  qed
  from step ng'(1-3) cell show ?case by simp
qed

subsection \<open>The step rule\<close>

text \<open>
  C9. On every grid (rows of one length, cells 0 or 1) \<^verbatim>\<open>next_generation\<close> returns a
  grid of the same height and width in which every cell is 1 if, in the grid passed in,
  it was alive with exactly two or three live toroidal neighbours or dead with exactly
  three, and 0 in every other case. Every cell is computed from the grid passed in,
  which the loop only reads.
\<close>

theorem next_generation_rule:
  assumes "is_grid grid"
  shows "\<exists>new. next_generation grid = Inr new \<and> length new = length grid \<and>
     (\<forall>y<length grid. length (new ! y) = length (hd grid) \<and>
        (\<forall>x<length (hd grid).
           new ! y ! x =
             (if (grid ! y ! x = 1 \<and>
                   (live_neighbors grid (int x) (int y) = 2 \<or>
                    live_neighbors grid (int x) (int y) = 3)) \<or>
                 (grid ! y ! x = 0 \<and> live_neighbors grid (int x) (int y) = 3)
              then 1 else 0)))"
proof -
  let ?h = "length grid" and ?w = "length (hd grid)"
  let ?ng = "replicate ?h (replicate ?w (0 :: int))"
  let ?ps = "List.product [0..int ?h - 1] [0..int ?w - 1]"
  have ne: "grid \<noteq> []" using assms unfolding is_grid_def by blast
  then have 0: "py_nth grid 0 = Inr (hd grid)"
    by (simp add: py_nth_def hd_conv_nth)
  have ng: "next_generation grid = cells_loop grid ?ps ?ng"
    unfolding next_generation_def 0 by (simp add: Let_def)
  have d1: "length ?ng = ?h" by simp
  have d2: "\<forall>i<?h. length (?ng ! i) = ?w" by simp
  have d3: "\<forall>p\<in>set ?ps. 0 \<le> fst p \<and> fst p < int ?h \<and> 0 \<le> snd p \<and> snd p < int ?w"
    by auto
  from cells_loop_inv[OF assms d1 d2 d3] obtain new where new:
    "cells_loop grid ?ps ?ng = Inr new" "length new = ?h"
    "\<forall>i<?h. length (new ! i) = ?w"
    "\<forall>i<?h. \<forall>j<?w. new ! i ! j =
       (if (int i, int j) \<in> set ?ps \<and> life_rule grid (int j) (int i) then 1 else ?ng ! i ! j)"
    by blast
  have cell: "new ! y ! x =
      (if (grid ! y ! x = 1 \<and>
            (live_neighbors grid (int x) (int y) = 2 \<or> live_neighbors grid (int x) (int y) = 3)) \<or>
          (grid ! y ! x = 0 \<and> live_neighbors grid (int x) (int y) = 3)
       then 1 else 0)"
    if yx: "y < ?h" "x < ?w" for y x
  proof -
    have m: "(int y, int x) \<in> set ?ps" using yx by simp
    have z: "?ng ! y ! x = 0" using yx by simp
    from new(4) yx have "new ! y ! x =
       (if (int y, int x) \<in> set ?ps \<and> life_rule grid (int x) (int y) then 1 else ?ng ! y ! x)"
      by blast
    then show ?thesis
      unfolding z using m by (simp add: life_rule_def)
  qed
  from ng new(1-3) cell show ?thesis by simp
qed

theorem next_generation_rule_witness:
  "is_grid sample_grid \<and>
   next_generation sample_grid = Inr [[1, 1, 0, 0], [1, 0, 0, 1], [0, 0, 0, 0], [0, 1, 0, 0]] \<and>
   live_neighbors sample_grid 0 0 = 2 \<and> live_neighbors sample_grid 1 1 = 4 \<and>
   live_neighbors sample_grid 3 1 = 3 \<and> live_neighbors sample_grid 2 2 = 0 \<and>
   [[1, 1, 0, 0], [1, 0, 0, 1], [0, 0, 0, 0], [0, 1, 0, 0]] ! 1 ! 3 =
     (if (sample_grid ! 1 ! 3 = 1 \<and>
           (live_neighbors sample_grid 3 1 = 2 \<or> live_neighbors sample_grid 3 1 = 3)) \<or>
         (sample_grid ! 1 ! 3 = 0 \<and> live_neighbors sample_grid 3 1 = 3)
      then 1 else (0 :: int))"
proof -
  have g: "is_grid sample_grid"
    unfolding is_grid_def sample_grid_def by simp
  have r: "[0..3] = [0, 1, 2, 3 :: int]"
    by (simp add: upto.simps)
  have b: "replicate 4 (replicate 4 (0 :: int)) =
      [[0, 0, 0, 0], [0, 0, 0, 0], [0, 0, 0, 0], [0, 0, 0, 0]]"
    by (simp add: eval_nat_numeral)
  have e: "next_generation sample_grid =
      Inr [[1, 1, 0, 0], [1, 0, 0, 1], [0, 0, 0, 0], [0, 1, 0, 0]]"
    by (simp add: next_generation_def sample_grid_def count_neighbors_def py_nth_def
        py_set_cell_def Let_def r b)
  have n: "live_neighbors sample_grid 0 0 = 2" "live_neighbors sample_grid 1 1 = 4"
    "live_neighbors sample_grid 3 1 = 3" "live_neighbors sample_grid 2 2 = 0"
    by (simp_all add: live_neighbors_def torus_cell_def neighbor_offsets_def sample_grid_def)
  have d: "1 < length sample_grid" "3 < length (hd sample_grid)"
    by (simp_all add: sample_grid_def)
  from next_generation_rule[OF g] obtain new where new:
    "next_generation sample_grid = Inr new"
    "\<forall>y<length sample_grid. length (new ! y) = length (hd sample_grid) \<and>
        (\<forall>x<length (hd sample_grid).
           new ! y ! x =
             (if (sample_grid ! y ! x = 1 \<and>
                   (live_neighbors sample_grid (int x) (int y) = 2 \<or>
                    live_neighbors sample_grid (int x) (int y) = 3)) \<or>
                 (sample_grid ! y ! x = 0 \<and> live_neighbors sample_grid (int x) (int y) = 3)
              then 1 else 0))"
    by blast
  from new(2) d have "new ! 1 ! 3 =
     (if (sample_grid ! 1 ! 3 = 1 \<and>
           (live_neighbors sample_grid (int 3) (int 1) = 2 \<or>
            live_neighbors sample_grid (int 3) (int 1) = 3)) \<or>
         (sample_grid ! 1 ! 3 = 0 \<and> live_neighbors sample_grid (int 3) (int 1) = 3)
      then 1 else 0)"
    by blast
  moreover from new(1) e have "new = [[1, 1, 0, 0], [1, 0, 0, 1], [0, 0, 0, 0], [0, 1, 0, 0]]"
    by simp
  ultimately have "[[1, 1, 0, 0], [1, 0, 0, 1], [0, 0, 0, 0], [0, 1, 0, 0]] ! 1 ! 3 =
     (if (sample_grid ! 1 ! 3 = 1 \<and>
           (live_neighbors sample_grid 3 1 = 2 \<or> live_neighbors sample_grid 3 1 = 3)) \<or>
         (sample_grid ! 1 ! 3 = 0 \<and> live_neighbors sample_grid 3 1 = 3)
      then 1 else (0 :: int))"
    by simp
  with g e n show ?thesis by blast
qed

end
